theory Spec2Isabelle
  imports Complex_Main "HOL-Library.AList"
begin

section \<open>The learning agent (class NeuralNetwork)\<close>

text \<open>
  JavaScript numbers that carry learned values, rewards, ratings and probabilities are
  modelled as reals (the arithmetic of the formulas, without rounding); counters are
  naturals or integers. A JavaScript \<open>Map\<close> is an association list in insertion order
  with one pair per key: \<open>Map.get\<close> is \<^const>\<open>map_of\<close>, \<open>Map.set\<close> is
  \<^const>\<open>AList.update\<close> (an existing key keeps its place, a new key goes to the end),
  \<open>Map.delete\<close> is \<^const>\<open>AList.delete\<close> and \<open>Map.size\<close> is \<^const>\<open>length\<close>.
\<close>

record QTableEntry =
  val :: real
  visits :: int

type_synonym MoveMap = "(string \<times> QTableEntry) list"

type_synonym QTable = "(string \<times> MoveMap) list"

record HistoryItem =
  positionHash :: string
  move :: string
  reward :: real

datatype Color = White | Black

datatype AIMode = QLearning | Mcts | Hybrid

datatype GameResult = Win | Loss | Draw

record NeuralNetwork =
  elo :: real
  gamesPlayed :: nat
  wins :: nat
  losses :: nat
  draws :: nat
  explorationRate :: real
  currentStreak :: int
  bestWinStreak :: int
  bestLossStreak :: int
  qTable :: QTable
  gameHistory :: "HistoryItem list"
  color :: Color
  mode :: AIMode
  mctsSimulations :: int

definition MAX_POSITIONS :: nat where
  "MAX_POSITIONS = 10000"

definition INITIAL_EXPLORATION :: real where
  "INITIAL_EXPLORATION = 3 / 10"

definition MIN_EXPLORATION :: real where
  "MIN_EXPLORATION = 5 / 100"

definition EXPLORATION_DECAY :: real where
  "EXPLORATION_DECAY = 995 / 1000"

definition LEARNING_RATE :: real where
  "LEARNING_RATE = 1 / 10"

definition DISCOUNT_FACTOR :: real where
  "DISCOUNT_FACTOR = 9 / 10"

text \<open>The constructor: \<open>new NeuralNetwork(color, initialElo)\<close>.\<close>

definition newNeuralNetwork :: "Color \<Rightarrow> real \<Rightarrow> NeuralNetwork" where
  "newNeuralNetwork c initialElo =
     \<lparr>elo = initialElo, gamesPlayed = 0, wins = 0, losses = 0, draws = 0,
      explorationRate = INITIAL_EXPLORATION, currentStreak = 0, bestWinStreak = 0,
      bestLossStreak = 0, qTable = [], gameHistory = [], color = c, mode = Hybrid,
      mctsSimulations = 30\<rparr>"

subsection \<open>The value table\<close>

definition getQValue :: "QTable \<Rightarrow> string \<Rightarrow> string \<Rightarrow> real" where
  "getQValue q posHash mv =
     (case map_of q posHash of
        None \<Rightarrow> 0
      | Some posEntry \<Rightarrow>
          (case map_of posEntry mv of None \<Rightarrow> 0 | Some moveEntry \<Rightarrow> val moveEntry))"

text \<open>
  \<open>pruneQTable\<close>: the entries array pairs every position with the sum of its moves' visit
  counts, in the table's iteration order; \<open>Array.prototype.sort\<close> is stable, as
  \<^const>\<open>sort_key\<close> is; the first \<open>Math.floor(entries.length * 0.2)\<close> positions of the
  sorted array are deleted.
\<close>

definition totalVisits :: "MoveMap \<Rightarrow> int" where
  "totalVisits moves = foldl (\<lambda>t e. t + visits (snd e)) 0 moves"

definition pruneEntries :: "QTable \<Rightarrow> (string \<times> int) list" where
  "pruneEntries q = sort_key snd (map (\<lambda>(pos, moves). (pos, totalVisits moves)) q)"

definition pruneQTable :: "QTable \<Rightarrow> QTable" where
  "pruneQTable q =
     (let entries = pruneEntries q;
          toRemove = nat \<lfloor>real (length entries) * (2 / 10)\<rfloor>
      in foldl (\<lambda>t e. AList.delete (fst e) t) q (take toRemove entries))"

text \<open>
  \<open>setQValue\<close>. After the first \<open>if\<close> the position is a key of the table, so the
  \<open>None\<close> branch of the second lookup (the non-null assertion of the source) is never
  taken.
\<close>

definition setQValue :: "string \<Rightarrow> string \<Rightarrow> real \<Rightarrow> QTable \<Rightarrow> QTable" where
  "setQValue posHash mv v q =
     (let q1 = (if map_of q posHash = None
                then AList.update posHash []
                       (if length q \<ge> MAX_POSITIONS then pruneQTable q else q)
                else q);
          posEntry = (case map_of q1 posHash of None \<Rightarrow> [] | Some pe \<Rightarrow> pe);
          existing = map_of posEntry mv
      in AList.update posHash
           (AList.update mv
              \<lparr>val = v,
               visits = (case existing of Some e \<Rightarrow> visits e + 1 | None \<Rightarrow> 1)\<rparr>
              posEntry)
           q1)"

subsection \<open>Learning after a game\<close>

text \<open>
  The loop \<open>for (let i = length - 1; i >= 0; i--)\<close> of \<open>learn\<close>: the counter of
  \<open>learn_loop\<close> is \<open>i + 1\<close>, the state is the table and \<open>cumulativeReward\<close>.
\<close>

fun learn_loop :: "HistoryItem list \<Rightarrow> nat \<Rightarrow> QTable \<times> real \<Rightarrow> QTable \<times> real" where
  "learn_loop h 0 (q, cumulativeReward) = (q, cumulativeReward)"
| "learn_loop h (Suc i) (q, cumulativeReward) =
     (let item = h ! i;
          oldQ = getQValue q (positionHash item) (move item);
          newQ = oldQ + LEARNING_RATE * (cumulativeReward - oldQ)
      in learn_loop h i
           (setQValue (positionHash item) (move item) newQ q,
            reward item + DISCOUNT_FACTOR * cumulativeReward))"

definition learn :: "GameResult \<Rightarrow> NeuralNetwork \<Rightarrow> NeuralNetwork" where
  "learn result s =
     (let finalReward = (if result = Win then 1 else if result = Loss then - 1 else 1 / 10);
          q' = fst (learn_loop (gameHistory s) (length (gameHistory s)) (qTable s, finalReward))
      in s\<lparr>qTable := q', gameHistory := [],
           explorationRate := max MIN_EXPLORATION (explorationRate s * EXPLORATION_DECAY)\<rparr>)"

subsection \<open>The learning step in the specification's words\<close>

text \<open>
  One step of the backward walk as the specification words it, with the literal
  constants: compute \<open>newValue = oldValue + 0.1 (cumulativeReward - oldValue)\<close>, write
  it, then \<open>cumulativeReward = immediateReward + 0.9 cumulativeReward\<close>. \<^const>\<open>foldr\<close>
  visits the last recorded triple first.
\<close>

definition terminalReward :: "GameResult \<Rightarrow> real" where
  "terminalReward result = (case result of Win \<Rightarrow> 1 | Loss \<Rightarrow> - 1 | Draw \<Rightarrow> 1 / 10)"

definition backwardStep :: "HistoryItem \<Rightarrow> QTable \<times> real \<Rightarrow> QTable \<times> real" where
  "backwardStep item st =
     (let oldValue = getQValue (fst st) (positionHash item) (move item);
          newValue = oldValue + (1 / 10) * (snd st - oldValue)
      in (setQValue (positionHash item) (move item) newValue (fst st),
          reward item + (9 / 10) * snd st))"

definition backwardWalk :: "HistoryItem list \<Rightarrow> QTable \<Rightarrow> real \<Rightarrow> QTable" where
  "backwardWalk trace q seed = fst (foldr backwardStep trace (q, seed))"

subsection \<open>Notions used to state the properties of the value table\<close>

text \<open>Any sequence of \<open>setQValue\<close> calls, applied in order to a table.\<close>

definition updateAll :: "(string \<times> string \<times> real) list \<Rightarrow> QTable \<Rightarrow> QTable" where
  "updateAll us q = foldl (\<lambda>t u. setQValue (fst u) (fst (snd u)) (snd (snd u)) t) q us"

text \<open>The aggregate visit count of a position of the table.\<close>

definition aggregateVisits :: "QTable \<Rightarrow> string \<Rightarrow> int" where
  "aggregateVisits q pos = (case map_of q pos of None \<Rightarrow> 0 | Some moves \<Rightarrow> totalVisits moves)"

text \<open>Sample tables: five positions with different visit totals, and a full table.\<close>

definition sampleTable :: QTable where
  "sampleTable =
     [(''a'', [(''e4'', \<lparr>val = 1 / 2, visits = 3\<rparr>)]),
      (''b'', [(''d4'', \<lparr>val = 0, visits = 1\<rparr>), (''c4'', \<lparr>val = 1 / 4, visits = 1\<rparr>)]),
      (''c'', [(''Nf3'', \<lparr>val = - 1, visits = 1\<rparr>)]),
      (''d'', [(''e4'', \<lparr>val = 1, visits = 5\<rparr>)]),
      (''e'', [(''e4'', \<lparr>val = 0, visits = 4\<rparr>)])]"

definition tableOfSize :: "nat \<Rightarrow> QTable" where
  "tableOfSize n = map (\<lambda>i. (replicate i CHR ''x'', [])) [0..<n]"

subsection \<open>Statistics, export and import\<close>

text \<open>
  \<open>updateStats\<close>; \<open>jitter\<close> is the value of \<open>Math.random()\<close> drawn on a win.
\<close>

definition updateStats :: "real \<Rightarrow> GameResult \<Rightarrow> NeuralNetwork \<Rightarrow> NeuralNetwork" where
  "updateStats jitter result s =
     (let s1 = s\<lparr>gamesPlayed := gamesPlayed s + 1\<rparr>
      in if result = Win then
           (let streak = (if currentStreak s1 > 0 then currentStreak s1 + 1 else 1)
            in s1\<lparr>wins := wins s1 + 1, elo := elo s1 + (15 + jitter * 5),
                  currentStreak := streak,
                  bestWinStreak := max (bestWinStreak s1) streak\<rparr>)
         else if result = Loss then
           (let streak = (if currentStreak s1 < 0 then currentStreak s1 - 1 else - 1)
            in s1\<lparr>losses := losses s1 + 1, elo := max 100 (elo s1 - 10),
                  currentStreak := streak,
                  bestLossStreak := max (bestLossStreak s1) \<bar>streak\<bar>\<rparr>)
         else s1\<lparr>draws := draws s1 + 1, elo := elo s1 + 2, currentStreak := 0\<rparr>)"

text \<open>
  The snapshot \<open>AIState\<close>. Its \<open>qTable\<close> is a plain object of plain objects: own string
  keys in insertion order (position keys and move names are never array indices or
  \<open>__proto__\<close>, which an object would treat differently), so an
  association list again, with \<open>obj[k] = v\<close> as \<^const>\<open>AList.update\<close>. The three streak
  fields may be absent from a snapshot; \<open>importState\<close> reads them with \<open>|| 0\<close>.
\<close>

record AIState =
  st_elo :: real
  st_gamesPlayed :: nat
  st_wins :: nat
  st_losses :: nat
  st_draws :: nat
  st_qTable :: "(string \<times> (string \<times> QTableEntry) list) list"
  st_currentStreak :: "int option"
  st_bestWinStreak :: "int option"
  st_bestLossStreak :: "int option"

definition orZero :: "int option \<Rightarrow> int" where
  "orZero x = (case x of None \<Rightarrow> 0 | Some n \<Rightarrow> (if n = 0 then 0 else n))"

definition exportState :: "NeuralNetwork \<Rightarrow> AIState" where
  "exportState s =
     \<lparr>st_elo = of_int \<lfloor>elo s\<rfloor>,
      st_gamesPlayed = gamesPlayed s,
      st_wins = wins s,
      st_losses = losses s,
      st_draws = draws s,
      st_qTable =
        foldl (\<lambda>qTableObj (pos, moves).
                 AList.update pos
                   (foldl (\<lambda>obj (mv, entry). AList.update mv entry obj) [] moves) qTableObj)
          [] (qTable s),
      st_currentStreak = Some (currentStreak s),
      st_bestWinStreak = Some (bestWinStreak s),
      st_bestLossStreak = Some (bestLossStreak s)\<rparr>"

definition importState :: "AIState \<Rightarrow> NeuralNetwork \<Rightarrow> NeuralNetwork" where
  "importState state s =
     s\<lparr>elo := st_elo state,
       gamesPlayed := st_gamesPlayed state,
       wins := st_wins state,
       losses := st_losses state,
       draws := st_draws state,
       currentStreak := orZero (st_currentStreak state),
       bestWinStreak := orZero (st_bestWinStreak state),
       bestLossStreak := orZero (st_bestLossStreak state),
       qTable :=
         foldl (\<lambda>q (pos, movesObj).
                  AList.update pos
                    (foldl (\<lambda>moves (mv, entry). AList.update mv entry moves) [] movesObj) q)
           [] (st_qTable state),
       explorationRate :=
         max MIN_EXPLORATION (INITIAL_EXPLORATION * EXPLORATION_DECAY ^ st_gamesPlayed state)\<rparr>"

text \<open>
  A table as a \<open>Map\<close> of \<open>Map\<close>s holds it: one pair per position, and one pair per move
  under each position.
\<close>

definition wellFormedTable :: "QTable \<Rightarrow> bool" where
  "wellFormedTable q =
     (distinct (map fst q) \<and> list_all (\<lambda>p. distinct (map fst (snd p))) q)"

definition sampleAgent :: NeuralNetwork where
  "sampleAgent =
     \<lparr>elo = 8127 / 10, gamesPlayed = 3, wins = 2, losses = 1, draws = 0,
      explorationRate = 29 / 100, currentStreak = 2, bestWinStreak = 2,
      bestLossStreak = 1, qTable = sampleTable,
      gameHistory = [\<lparr>positionHash = ''a'', move = ''e4'', reward = 1 / 10\<rparr>],
      color = White, mode = Hybrid, mctsSimulations = 30\<rparr>"

section \<open>The position key\<close>

text \<open>
  \<open>s.split(' ')\<close> and \<open>parts.join(' ')\<close> of JavaScript: splitting the empty string gives
  one empty part, and every space starts a new part.
\<close>

fun splitSpace :: "string \<Rightarrow> string list" where
  "splitSpace [] = [[]]"
| "splitSpace (c # cs) =
     (if c = CHR '' '' then [] # splitSpace cs
      else (case splitSpace cs of [] \<Rightarrow> [[c]] | w # ws \<Rightarrow> (c # w) # ws))"

fun joinSpace :: "string list \<Rightarrow> string" where
  "joinSpace [] = []"
| "joinSpace [w] = w"
| "joinSpace (w # v # ws) = w @ CHR '' '' # joinSpace (v # ws)"

text \<open>\<open>NeuralNetwork.hashPosition\<close>, applied to the string \<open>chess.fen()\<close> returns.\<close>

definition hashPosition :: "string \<Rightarrow> string" where
  "hashPosition fen = joinSpace (take 4 (splitSpace fen))"

text \<open>\<open>simplifyFen\<close> of the opening book.\<close>

definition simplifyFen :: "string \<Rightarrow> string" where
  "simplifyFen fen = (let parts = splitSpace fen in joinSpace (take 4 parts))"

text \<open>
  The rules library is not part of the repository. What \<open>hashPosition\<close> relies on is the
  shape of the string it returns for a game state: six fields joined by single spaces
  (piece placement, side to move, castling rights, en-passant target square, halfmove
  clock, fullmove number), the counters in decimal.
\<close>

record GameState =
  placement :: string
  sideToMove :: string
  castling :: string
  epSquare :: string
  halfMoves :: nat
  moveNumber :: nat

function showNat :: "nat \<Rightarrow> string" where
  "showNat n =
     (if n < 10 then [''0123456789'' ! n]
      else showNat (n div 10) @ [''0123456789'' ! (n mod 10)])"
  by pat_completeness auto
termination
  by (relation "measure id") auto

declare showNat.simps [simp del]

definition fenOf :: "GameState \<Rightarrow> string" where
  "fenOf g =
     joinSpace [placement g, sideToMove g, castling g, epSquare g,
                showNat (halfMoves g), showNat (moveNumber g)]"

text \<open>No field of a state contains a space (the counters never do).\<close>

definition spaceFree :: "string \<Rightarrow> bool" where
  "spaceFree w = (CHR '' '' \<notin> set w)"

definition fieldsSpaceFree :: "GameState \<Rightarrow> bool" where
  "fieldsSpaceFree g =
     (spaceFree (placement g) \<and> spaceFree (sideToMove g) \<and> spaceFree (castling g)
      \<and> spaceFree (epSquare g))"

text \<open>
  Two states with the same placement, side to move and castling rights, black to move
  with a pawn on d4 next to a white pawn on e4: after 1. Nf3 d5 2. Ng1 d4 3. e4 the
  pawn has just made a double step, after 1. e3 d6 2. Nf3 d5 3. Ng1 d4 4. e4 it has not.
\<close>

definition afterDoubleStep :: GameState where
  "afterDoubleStep =
     \<lparr>placement = ''rnbqkbnr/ppp1pppp/8/8/3pP3/8/PPPP1PPP/RNBQKBNR'', sideToMove = ''b'',
      castling = ''KQkq'', epSquare = ''e3'', halfMoves = 0, moveNumber = 3\<rparr>"

definition afterSingleSteps :: GameState where
  "afterSingleSteps =
     \<lparr>placement = ''rnbqkbnr/ppp1pppp/8/8/3pP3/8/PPPP1PPP/RNBQKBNR'', sideToMove = ''b'',
      castling = ''KQkq'', epSquare = ''-'', halfMoves = 0, moveNumber = 4\<rparr>"

section \<open>Tree search (mcts.ts)\<close>

text \<open>
  The rules library answers two questions of the search: the legal moves of a position
  (\<open>new Chess(fen).moves()\<close>) and the position after a legal move (\<open>chess.move(move)\<close>
  followed by \<open>chess.fen()\<close>). Both are parameters.
\<close>

record Rules =
  legalMoves :: "string \<Rightarrow> string list"
  afterMove :: "string \<Rightarrow> string \<Rightarrow> string"

text \<open>
  A node owns its children. The \<open>parent\<close> field of the source is a back reference that
  is read in two places only: \<open>ucb1\<close> reads the parent's visit count, passed here as an
  argument, and \<open>backpropagate\<close> walks up to the root, done here on the way back from
  the recursive descent.
\<close>

datatype MCTSNode =
  MCTSNode (nodeMove: "string option") (children: "MCTSNode list") (nodeVisits: nat)
    (nodeWins: real) (untriedMoves: "string list") (nodeFen: string)

definition EXPLORATION_CONSTANT :: real where
  "EXPLORATION_CONSTANT = 141 / 100"

definition createNode :: "Rules \<Rightarrow> string \<Rightarrow> string option \<Rightarrow> MCTSNode" where
  "createNode R fen mv = MCTSNode mv [] 0 0 (legalMoves R fen) fen"

text \<open>The value of \<open>ucb1\<close>: \<open>Infinity\<close> for an unvisited node, a number otherwise.\<close>

datatype Ucb = UcbInfinity | UcbValue real

fun ucbGreater :: "Ucb \<Rightarrow> Ucb \<Rightarrow> bool" where
  "ucbGreater UcbInfinity UcbInfinity = False"
| "ucbGreater UcbInfinity (UcbValue b) = True"
| "ucbGreater (UcbValue a) UcbInfinity = False"
| "ucbGreater (UcbValue a) (UcbValue b) = (a > b)"

definition ucb1 :: "nat \<Rightarrow> MCTSNode \<Rightarrow> real \<Rightarrow> Ucb" where
  "ucb1 parentVisits node explorationConstant =
     (if nodeVisits node = 0 then UcbInfinity
      else
        (let exploitation = nodeWins node / real (nodeVisits node);
             exploration =
               sqrt (ln (real (if parentVisits = 0 then 1 else parentVisits))
                     / real (nodeVisits node))
         in UcbValue (exploitation + explorationConstant * exploration)))"

text \<open>
  \<open>selectChild\<close> returns the index of its choice among the children; the loop runs over
  \<open>children.slice(1)\<close>, with the index of the child at hand.
\<close>

fun selectChildLoop :: "nat \<Rightarrow> MCTSNode list \<Rightarrow> nat \<Rightarrow> nat \<times> Ucb \<Rightarrow> nat" where
  "selectChildLoop pv [] i (bestChild, bestUcb) = bestChild"
| "selectChildLoop pv (child # rest) i (bestChild, bestUcb) =
     (let childUcb = ucb1 pv child EXPLORATION_CONSTANT
      in if ucbGreater childUcb bestUcb
         then selectChildLoop pv rest (i + 1) (i, childUcb)
         else selectChildLoop pv rest (i + 1) (bestChild, bestUcb))"

definition selectChild :: "nat \<Rightarrow> MCTSNode list \<Rightarrow> nat" where
  "selectChild parentVisits cs =
     selectChildLoop parentVisits (tl cs) 1 (0, ucb1 parentVisits (hd cs) EXPLORATION_CONSTANT)"

lemma selectChildLoop_bound:
  "b < i + length cs \<Longrightarrow> selectChildLoop pv cs i (b, u) < i + length cs"
proof (induction cs arbitrary: i b u)
  case Nil
  then show ?case by simp
next
  case (Cons c cs)
  have "selectChildLoop pv cs (i + 1) (i, ucb1 pv c EXPLORATION_CONSTANT) < (i + 1) + length cs"
    by (rule Cons.IH) simp
  moreover have "selectChildLoop pv cs (i + 1) (b, u) < (i + 1) + length cs"
    using Cons.prems by (intro Cons.IH) simp
  ultimately show ?case
    by (simp add: Let_def)
qed

lemma selectChild_bound: "cs \<noteq> [] \<Longrightarrow> selectChild pv cs < length cs"
proof -
  assume "cs \<noteq> []"
  then obtain c rest where cs: "cs = c # rest"
    by (cases cs) auto
  have "selectChildLoop pv rest 1 (0, ucb1 pv c EXPLORATION_CONSTANT) < 1 + length rest"
    by (rule selectChildLoop_bound) simp
  then show ?thesis
    by (simp add: selectChild_def cs)
qed

text \<open>
  One pass of the simulation loop from a node downwards: selection while the node has
  no untried move and has children, expansion of one untried move chosen by the draw
  \<open>r\<close> (\<open>Math.floor(Math.random() * untriedMoves.length)\<close>), the rollout
  \<open>simulate(node.fen, originalTurn)\<close>, a parameter here, and backpropagation, which
  flips the credited result at every level. The second component of the result is what
  was credited to the node. \<open>None\<close> stands for an exception: an index outside the list
  gives \<open>chess.move(undefined)\<close>, which throws.
\<close>

function iterate :: "Rules \<Rightarrow> real \<Rightarrow> (string \<Rightarrow> real) \<Rightarrow> MCTSNode \<Rightarrow> (MCTSNode \<times> real) option" where
  "iterate R r simulate (MCTSNode mv cs v w un fen) =
     (if un = [] \<and> cs \<noteq> [] then
        (let j = selectChild v cs
         in case iterate R r simulate (cs ! j) of
              None \<Rightarrow> None
            | Some (child, result) \<Rightarrow>
                Some (MCTSNode mv (cs[j := child]) (v + 1) (w + (1 - result)) un fen,
                      1 - result))
      else if un \<noteq> [] then
        (let moveIndex = \<lfloor>r * real (length un)\<rfloor>
         in if 0 \<le> moveIndex \<and> nat moveIndex < length un then
              (let m = un ! nat moveIndex;
                   child = createNode R (afterMove R fen m) (Some m);
                   result = simulate (nodeFen child)
               in Some (MCTSNode mv
                          (cs @ [MCTSNode (nodeMove child) (children child) 1 result
                                   (untriedMoves child) (nodeFen child)])
                          (v + 1) (w + (1 - result))
                          (take (nat moveIndex) un @ drop (Suc (nat moveIndex)) un) fen,
                        1 - result))
            else None)
      else
        (let result = simulate fen
         in Some (MCTSNode mv cs (v + 1) (w + result) un fen, result)))"
  by pat_completeness auto
termination
proof (relation "measure (\<lambda>(R, r, simulate, node). size node)")
  show "wf (measure (\<lambda>(R, r, simulate, node). size node))"
    by simp
next
  fix R :: Rules and r :: real and simulate :: "string \<Rightarrow> real"
    and mv :: "string option" and cs :: "MCTSNode list" and v :: nat and w :: real
    and un :: "string list" and fen :: string and j :: nat
  assume a: "un = [] \<and> cs \<noteq> []" and j: "j = selectChild v cs"
  from a j have "j < length cs"
    by (simp add: selectChild_bound)
  then have "cs ! j \<in> set cs"
    by (rule nth_mem)
  then have "size (cs ! j) < Suc (size_list size cs)"
    by (simp add: size_list_estimation' less_Suc_eq_le)
  then show "((R, r, simulate, cs ! j), (R, r, simulate, MCTSNode mv cs v w un fen))
      \<in> measure (\<lambda>(R, r, simulate, node). size node)"
    by simp
qed

declare iterate.simps [simp del]

fun simulations ::
  "Rules \<Rightarrow> (nat \<Rightarrow> real) \<Rightarrow> (nat \<Rightarrow> string \<Rightarrow> real) \<Rightarrow> nat \<Rightarrow> nat \<Rightarrow> MCTSNode \<Rightarrow> MCTSNode option" where
  "simulations R rnd simulate i 0 rootNode = Some rootNode"
| "simulations R rnd simulate i (Suc k) rootNode =
     (case iterate R (rnd i) (simulate i) rootNode of
        None \<Rightarrow> None
      | Some (rootNode', result) \<Rightarrow> simulations R rnd simulate (i + 1) k rootNode')"

text \<open>
  The final choice among the root's children; \<open>None\<close> as best score is \<open>-Infinity\<close>.
\<close>

fun bestChildLoop ::
  "(string \<Rightarrow> real) option \<Rightarrow> int \<Rightarrow> MCTSNode list \<Rightarrow> MCTSNode \<times> real option \<Rightarrow> MCTSNode" where
  "bestChildLoop qValueBias numSimulations [] (bestChild, bestScore) = bestChild"
| "bestChildLoop qValueBias numSimulations (child # rest) (bestChild, bestScore) =
     (let score =
            real (nodeVisits child)
            + (case qValueBias of
                 None \<Rightarrow> 0
               | Some bias \<Rightarrow>
                   (case nodeMove child of
                      None \<Rightarrow> 0
                    | Some m \<Rightarrow>
                        if m = [] then 0 else bias m * of_int numSimulations * (1 / 10)))
      in if (case bestScore of None \<Rightarrow> True | Some b \<Rightarrow> score > b)
         then bestChildLoop qValueBias numSimulations rest (child, Some score)
         else bestChildLoop qValueBias numSimulations rest (bestChild, bestScore))"

text \<open>
  \<open>mcts\<close>. A run either throws or returns a move or \<open>null\<close>; next to the returned value
  the model reports the tree the run has built, \<open>None\<close> when no node was ever created.
  With no child under the root after the loop, \<open>bestChild\<close> is \<open>undefined\<close> and reading
  \<open>bestChild.move\<close> throws. \<open>rnd i\<close> and \<open>simulate i\<close> are the draw of the expansion
  and the rollout of simulation \<open>i\<close>.
\<close>

datatype MctsRun = Threw | Returned "string option" "MCTSNode option"

definition mcts ::
  "Rules \<Rightarrow> (nat \<Rightarrow> real) \<Rightarrow> (nat \<Rightarrow> string \<Rightarrow> real) \<Rightarrow> string \<Rightarrow> int \<Rightarrow> (string \<Rightarrow> real) option
   \<Rightarrow> MctsRun" where
  "mcts R rnd simulate fen numSimulations qValueBias =
     (let legal = legalMoves R fen
      in if length legal = 0 then Returned None None
         else if length legal = 1 then Returned (Some (legal ! 0)) None
         else
           (let rootNode = createNode R fen None
            in case simulations R rnd simulate 0 (nat numSimulations) rootNode of
                 None \<Rightarrow> Threw
               | Some rootNode' \<Rightarrow>
                   (case children rootNode' of
                      [] \<Rightarrow> Threw
                    | first # rest \<Rightarrow>
                        Returned
                          (nodeMove
                             (bestChildLoop qValueBias numSimulations (children rootNode')
                                (first, None)))
                          (Some rootNode'))))"

definition returnsNull :: "MctsRun \<Rightarrow> bool" where
  "returnsNull run = (case run of Threw \<Rightarrow> False | Returned mv tree \<Rightarrow> mv = None)"

text \<open>
  Sample rules with three positions: \<open>''forced''\<close> has one legal move, \<open>''open''\<close> has
  two, every other position has none.
\<close>

definition sampleRules :: Rules where
  "sampleRules =
     \<lparr>legalMoves = (\<lambda>fen. if fen = ''forced'' then [''Kh1'']
                         else if fen = ''open'' then [''e4'', ''d4''] else []),
      afterMove = (\<lambda>fen m. fen @ '' '' @ m)\<rparr>"

section \<open>Choosing a move (decideMove, decideMoveWithMCTS)\<close>

text \<open>
  The fields of a verbose move that the agent reads. A random source is a sequence of
  draws of \<open>Math.random()\<close> and a cursor into it; every function that draws returns the
  cursor after its draws.
\<close>

record Move =
  san :: string
  captured :: "string option"
  promotion :: "string option"

definition captureValue :: "string \<Rightarrow> real" where
  "captureValue piece =
     (if piece = ''p'' then 1 else if piece = ''n'' then 3 else if piece = ''b'' then 3
      else if piece = ''r'' then 5 else if piece = ''q'' then 9 else 0)"

definition evaluateMove :: "Move \<Rightarrow> real" where
  "evaluateMove m =
     (let score0 = (case captured m of None \<Rightarrow> 0 | Some c \<Rightarrow> captureValue c * (1 / 10));
          score1 = (if promotion m \<noteq> None then score0 + 9 / 10 else score0);
          score2 = (if CHR ''+'' \<in> set (san m) then score1 + 1 / 10 else score1)
      in if CHR ''#'' \<in> set (san m) then score2 + 1 else score2)"

subsection \<open>The opening book (openings.ts)\<close>

record BookMove =
  bookMove :: string
  weight :: real

type_synonym OpeningBook = "(string \<times> BookMove list) list"

definition isInBook :: "OpeningBook \<Rightarrow> string \<Rightarrow> bool" where
  "isInBook book fen = (map_of book (simplifyFen fen) \<noteq> None)"

fun pickWeighted :: "real \<Rightarrow> BookMove list \<Rightarrow> string option" where
  "pickWeighted random [] = None"
| "pickWeighted random (b # bs) =
     (if random - weight b \<le> 0 then Some (bookMove b)
      else pickWeighted (random - weight b) bs)"

definition getBookMove :: "OpeningBook \<Rightarrow> (nat \<Rightarrow> real) \<Rightarrow> nat \<Rightarrow> string \<Rightarrow> string option \<times> nat" where
  "getBookMove book rnd i fen =
     (case map_of book (simplifyFen fen) of
        None \<Rightarrow> (None, i)
      | Some bookMoves \<Rightarrow>
          if length bookMoves = 0 then (None, i)
          else
            (let totalWeight = foldl (\<lambda>sum m. sum + weight m) 0 bookMoves;
                 random = rnd i * totalWeight
             in case pickWeighted random bookMoves of
                  Some m \<Rightarrow> (Some m, i + 1)
                | None \<Rightarrow> (Some (bookMove (hd bookMoves)), i + 1)))"

subsection \<open>decideMove\<close>

text \<open>
  The condition \<open>Math.random() > this.explorationRate * 0.5\<close> of the book branch of
  \<open>decideMove\<close>.
\<close>

definition bookGate :: "real \<Rightarrow> real \<Rightarrow> bool" where
  "bookGate rate draw = (draw > rate * (5 / 10))"

fun exploreLoop :: "Move list \<Rightarrow> real \<Rightarrow> Move option" where
  "exploreLoop [] r = None"
| "exploreLoop (m # ms) r =
     (if r - (1 + evaluateMove m) \<le> 0 then Some m
      else exploreLoop ms (r - (1 + evaluateMove m)))"

fun exploitLoop :: "QTable \<Rightarrow> string \<Rightarrow> Move list \<Rightarrow> Move \<times> real option \<Rightarrow> Move" where
  "exploitLoop q posHash [] (bestMove, bestValue) = bestMove"
| "exploitLoop q posHash (m # ms) (bestMove, bestValue) =
     (let qValue = getQValue q posHash (san m) + evaluateMove m
      in if (case bestValue of None \<Rightarrow> True | Some b \<Rightarrow> qValue > b)
         then exploitLoop q posHash ms (m, Some qValue)
         else exploitLoop q posHash ms (bestMove, bestValue))"

definition pushHistory :: "string \<Rightarrow> string \<Rightarrow> real \<Rightarrow> NeuralNetwork \<Rightarrow> NeuralNetwork" where
  "pushHistory posHash mv r s =
     s\<lparr>gameHistory := gameHistory s @ [\<lparr>positionHash = posHash, move = mv, reward = r\<rparr>]\<rparr>"

text \<open>The part of \<open>decideMove\<close> after the book branch: explore or exploit.\<close>

definition decideLearned ::
  "(nat \<Rightarrow> real) \<Rightarrow> nat \<Rightarrow> string \<Rightarrow> Move \<Rightarrow> Move list \<Rightarrow> NeuralNetwork
   \<Rightarrow> string option \<times> NeuralNetwork \<times> nat" where
  "decideLearned rnd i posHash first moves s =
     (let exploit = (\<lambda>j.
            let bestMove = exploitLoop (qTable s) posHash moves (first, None)
            in (Some (san bestMove),
                pushHistory posHash (san bestMove) (evaluateMove bestMove) s, j))
      in if rnd i < explorationRate s then
           (let totalWeight = foldl (\<lambda>a b. a + b) 0 (map (\<lambda>m. 1 + evaluateMove m) moves);
                r = rnd (i + 1) * totalWeight
            in case exploreLoop moves r of
                 Some m \<Rightarrow> (Some (san m), pushHistory posHash (san m) (evaluateMove m) s, i + 2)
               | None \<Rightarrow> exploit (i + 2))
         else exploit (i + 1))"

text \<open>
  \<open>decideMove\<close>. The draw of the gate is made only for a position of the book
  (\<open>&&\<close> evaluates its right side only then). A book move is returned with the agent
  unchanged: it is not pushed on the game history.
\<close>

definition decideMove ::
  "OpeningBook \<Rightarrow> (nat \<Rightarrow> real) \<Rightarrow> nat \<Rightarrow> string \<Rightarrow> Move list \<Rightarrow> NeuralNetwork
   \<Rightarrow> string option \<times> NeuralNetwork \<times> nat" where
  "decideMove book rnd i fen moves s =
     (case moves of
        [] \<Rightarrow> (None, s, i)
      | first # others \<Rightarrow>
          (let posHash = hashPosition fen
           in if isInBook book fen then
                (if bookGate (explorationRate s) (rnd i) then
                   (case getBookMove book rnd (i + 1) fen of
                      (Some b, j) \<Rightarrow>
                        if b \<noteq> [] \<and> b \<in> san ` set moves then (Some b, s, j)
                        else decideLearned rnd j posHash first moves s
                    | (None, j) \<Rightarrow> decideLearned rnd j posHash first moves s)
                 else decideLearned rnd (i + 1) posHash first moves s)
              else decideLearned rnd i posHash first moves s))"

subsection \<open>decideMoveWithMCTS\<close>

text \<open>
  \<open>decideMoveWithMCTS\<close> and \<open>decideMoveAuto\<close>. The search has its own draws \<open>srnd\<close> and
  rollouts; \<open>None\<close> stands for an exception of the search passing through.
\<close>

definition decideMoveWithMCTS ::
  "OpeningBook \<Rightarrow> Rules \<Rightarrow> (nat \<Rightarrow> real) \<Rightarrow> (nat \<Rightarrow> string \<Rightarrow> real) \<Rightarrow> (nat \<Rightarrow> real) \<Rightarrow> nat \<Rightarrow> string
   \<Rightarrow> Move list \<Rightarrow> NeuralNetwork \<Rightarrow> (string option \<times> NeuralNetwork \<times> nat) option" where
  "decideMoveWithMCTS book R srnd simulate rnd i fen moves s =
     (if length moves = 0 then Some (None, s, i)
      else
        (let posHash = hashPosition fen;
             (booked, j) = (if isInBook book fen then getBookMove book rnd i fen else (None, i))
         in if (case booked of None \<Rightarrow> False | Some b \<Rightarrow> b \<noteq> [] \<and> b \<in> san ` set moves)
            then Some (booked, s, j)
            else
              (let qBias = (if mode s = Hybrid then Some (\<lambda>mv. getQValue (qTable s) posHash mv)
                            else None)
               in case mcts R srnd simulate fen (mctsSimulations s) qBias of
                    Threw \<Rightarrow> None
                  | Returned None tree \<Rightarrow> Some (decideMove book rnd j fen moves s)
                  | Returned (Some mctsMove) tree \<Rightarrow>
                      if mctsMove = [] then Some (decideMove book rnd j fen moves s)
                      else
                        (let r = (case find (\<lambda>m. san m = mctsMove) moves of
                                    None \<Rightarrow> 0 | Some moveObj \<Rightarrow> evaluateMove moveObj)
                         in Some (Some mctsMove, pushHistory posHash mctsMove r s, j)))))"

definition decideMoveAuto ::
  "OpeningBook \<Rightarrow> Rules \<Rightarrow> (nat \<Rightarrow> real) \<Rightarrow> (nat \<Rightarrow> string \<Rightarrow> real) \<Rightarrow> (nat \<Rightarrow> real) \<Rightarrow> nat \<Rightarrow> string
   \<Rightarrow> Move list \<Rightarrow> NeuralNetwork \<Rightarrow> (string option \<times> NeuralNetwork \<times> nat) option" where
  "decideMoveAuto book R srnd simulate rnd i fen moves s =
     (if mode s = Mcts \<or> mode s = Hybrid
      then decideMoveWithMCTS book R srnd simulate rnd i fen moves s
      else Some (decideMove book rnd i fen moves s))"

text \<open>A book with the starting position only, and three moves of that position.\<close>

definition startFen :: string where
  "startFen = ''rnbqkbnr/pppppppp/8/8/8/8/PPPPPPPP/RNBQKBNR w KQkq - 0 1''"

definition sampleBook :: OpeningBook where
  "sampleBook =
     [(''rnbqkbnr/pppppppp/8/8/8/8/PPPPPPPP/RNBQKBNR w KQkq -'',
       [\<lparr>bookMove = ''e4'', weight = 35\<rparr>, \<lparr>bookMove = ''d4'', weight = 35\<rparr>,
        \<lparr>bookMove = ''Nf3'', weight = 15\<rparr>, \<lparr>bookMove = ''c4'', weight = 15\<rparr>])]"

definition sampleMoves :: "Move list" where
  "sampleMoves =
     [\<lparr>san = ''a3'', captured = None, promotion = None\<rparr>,
      \<lparr>san = ''e4'', captured = None, promotion = None\<rparr>,
      \<lparr>san = ''d4'', captured = None, promotion = None\<rparr>]"

text \<open>Draws for the samples: the first draw is \<open>first\<close>, every later draw is one half.\<close>

definition drawsFrom :: "real \<Rightarrow> nat \<Rightarrow> real" where
  "drawsFrom first i = (if i = 0 then first else 1 / 2)"

section \<open>The training orchestrator (class GameManager)\<close>

text \<open>
  The board object of the rules library, as far as the orchestrator's own state goes:
  the position and the moves played. \<open>chess.reset()\<close> and \<open>new Chess()\<close> give
  \<open>newGame\<close>.
\<close>

record Chess =
  chessFen :: string
  chessHistory :: "string list"

definition newGame :: Chess where
  "newGame = \<lparr>chessFen = startFen, chessHistory = []\<rparr>"

subsection \<open>Move-quality tracking (blunder-detector.ts)\<close>

datatype MoveQuality = Normal | Good | Excellent | Brilliant | Inaccuracy | Mistake | Blunder

record MoveEvaluation =
  evMoveNumber :: nat
  evMove :: string
  evalBefore :: real
  evalAfter :: real
  evalChange :: real
  quality :: MoveQuality
  player :: Color

record BlunderDetector =
  evalHistory :: "real list"
  moveHistory :: "MoveEvaluation list"
  lastMoveNumber :: nat

definition resetDetector :: "BlunderDetector \<Rightarrow> BlunderDetector" where
  "resetDetector d = d\<lparr>evalHistory := [], moveHistory := [], lastMoveNumber := 0\<rparr>"

subsection \<open>State and events\<close>

text \<open>
  The fields of the class, and \<open>pendingTimeouts\<close>, which is not a field: it lists the
  handles of the timeouts of the runtime that were set and have neither fired nor been
  cleared. \<open>stockfish\<close> tells whether an engine object has been created.
\<close>

record GameManager =
  chess :: Chess
  whiteAI :: NeuralNetwork
  blackAI :: NeuralNetwork
  timer :: "nat option"
  moveIntervalMs :: real
  isRunning :: bool
  moveTimesMs :: "real list"
  stockfish :: bool
  isBenchmarking :: bool
  blunderDetector :: BlunderDetector
  lastEval :: real
  lastMoveEval :: "MoveEvaluation option"
  opponentBot :: "NeuralNetwork option"
  playingAgainstBotId :: "string option"
  pendingTimeouts :: "nat list"

record QuickTrainResults =
  resGamesPlayed :: real
  resWhiteWins :: nat
  resBlackWins :: nat
  resDraws :: nat

text \<open>What a handler emits on the socket or to all clients, in order.\<close>

datatype Emitted =
  AiStatus string
  | GameStateBroadcast
  | BenchmarkError string
  | BenchmarkStarted
  | BenchmarkComplete
  | QuickTrainStarted real
  | QuickTrainProgress int real nat nat nat
  | QuickTrainComplete QuickTrainResults

subsection \<open>start, pause, stop\<close>

definition pause :: "GameManager \<Rightarrow> GameManager \<times> Emitted list" where
  "pause gm =
     (let gm1 = gm\<lparr>isRunning := False\<rparr>;
          gm2 = (case timer gm1 of
                   None \<Rightarrow> gm1
                 | Some t \<Rightarrow>
                     gm1\<lparr>pendingTimeouts := removeAll t (pendingTimeouts gm1), timer := None\<rparr>)
      in (gm2, [AiStatus ''idle'']))"

definition stop :: "GameManager \<Rightarrow> GameManager \<times> Emitted list" where
  "stop gm =
     (let (gm1, out) = pause gm;
          gm2 = gm1\<lparr>chess := newGame, moveTimesMs := [],
                    blunderDetector := resetDetector (blunderDetector gm1),
                    lastMoveEval := None\<rparr>
      in (gm2, out @ [GameStateBroadcast]))"

text \<open>
  \<open>gameLoop\<close> returns at once when the manager is not running; what it does otherwise
  (game over handling or one move cycle, and the next timeout) is the parameter
  \<open>cycle\<close>. \<open>start\<close> calls \<open>gameLoop\<close> directly.
\<close>

definition gameLoop ::
  "(GameManager \<Rightarrow> GameManager \<times> Emitted list) \<Rightarrow> GameManager \<Rightarrow> GameManager \<times> Emitted list" where
  "gameLoop cycle gm = (if \<not> isRunning gm then (gm, []) else cycle gm)"

definition start ::
  "(GameManager \<Rightarrow> GameManager \<times> Emitted list) \<Rightarrow> GameManager \<Rightarrow> GameManager \<times> Emitted list" where
  "start cycle gm =
     (if isRunning gm then (gm, [])
      else
        (let gm1 = gm\<lparr>isRunning := True\<rparr>;
             (gm2, out) = gameLoop cycle gm1
         in (gm2, AiStatus ''idle'' # out)))"

subsection \<open>The run_benchmark handler\<close>

text \<open>
  The handler awaits twice, so it runs in up to three pieces, and other handlers run
  between them. \<open>runBenchmarkStart\<close> is the piece up to the first \<open>await\<close>; its third
  result tells where the handler is suspended, \<open>None\<close> when it has returned.
  \<open>runBenchmarkAfterInit\<close> resumes with the result of \<open>stockfish.init()\<close>,
  \<open>runBenchmarkFinish\<close> with that of \<open>runQuickBenchmark\<close>; \<open>None\<close> is a rejected promise.

  The call of \<open>runQuickBenchmark\<close> runs on, inside the piece that makes it, up to its own
  first \<open>await\<close>: the first benchmark game is set up with the agent as white, the agent
  decides its first move on the initial position with \<open>decideMoveAuto\<close>, which may push
  a triple on its game history, and the game waits for the engine's reply. What the
  decision reads besides the agent is gathered in a \<open>DecisionEnv\<close>. A search that throws
  leaves the agent as it was; the rejection reaches the handler when it resumes.
\<close>

datatype Suspended = AwaitInit | AwaitBenchmark

record DecisionEnv =
  envBook :: OpeningBook
  envRules :: Rules
  envSearchDraws :: "nat \<Rightarrow> real"
  envSimulate :: "nat \<Rightarrow> string \<Rightarrow> real"
  envDraws :: "nat \<Rightarrow> real"
  envCursor :: nat
  envStartMoves :: "Move list"

definition benchmarkFirstMove :: "DecisionEnv \<Rightarrow> NeuralNetwork \<Rightarrow> NeuralNetwork" where
  "benchmarkFirstMove env ai =
     (case decideMoveAuto (envBook env) (envRules env) (envSearchDraws env) (envSimulate env)
             (envDraws env) (envCursor env) startFen (envStartMoves env) ai of
        None \<Rightarrow> ai
      | Some (mv, ai', cursor) \<Rightarrow> ai')"

definition runBenchmarkStart ::
  "DecisionEnv \<Rightarrow> GameManager \<Rightarrow> GameManager \<times> Emitted list \<times> Suspended option" where
  "runBenchmarkStart env gm =
     (if isBenchmarking gm then (gm, [BenchmarkError ''Benchmark already running''], None)
      else
        (let gm1 = gm\<lparr>isBenchmarking := True\<rparr>
         in if \<not> stockfish gm1
            then (gm1\<lparr>stockfish := True\<rparr>, [BenchmarkStarted], Some AwaitInit)
            else (gm1\<lparr>whiteAI := benchmarkFirstMove env (whiteAI gm1)\<rparr>,
                  [BenchmarkStarted], Some AwaitBenchmark)))"

definition runBenchmarkAfterInit ::
  "DecisionEnv \<Rightarrow> bool option \<Rightarrow> GameManager \<Rightarrow> GameManager \<times> Emitted list \<times> Suspended option" where
  "runBenchmarkAfterInit env initialized gm =
     (case initialized of
        None \<Rightarrow> (gm\<lparr>isBenchmarking := False\<rparr>, [BenchmarkError ''Benchmark failed''], None)
      | Some ok \<Rightarrow>
          if \<not> ok
          then (gm\<lparr>isBenchmarking := False\<rparr>,
                [BenchmarkError ''Failed to initialize Stockfish''], None)
          else (gm\<lparr>whiteAI := benchmarkFirstMove env (whiteAI gm)\<rparr>, [],
                Some AwaitBenchmark))"

definition runBenchmarkFinish :: "NeuralNetwork option \<Rightarrow> GameManager \<Rightarrow> GameManager \<times> Emitted list" where
  "runBenchmarkFinish benchmarked gm =
     (case benchmarked of
        None \<Rightarrow> (gm\<lparr>isBenchmarking := False\<rparr>, [BenchmarkError ''Benchmark failed''])
      | Some ai \<Rightarrow> (gm\<lparr>whiteAI := ai, isBenchmarking := False\<rparr>, [BenchmarkComplete]))"

subsection \<open>The quick_train handler and quickTrain\<close>

text \<open>
  The inner loop of \<open>quickTrain\<close> plays one game on the reset board with the rules library and
  the two agents' \<open>decideMoveAuto\<close>, which leaves an agent as it was but for the triples
  pushed on its game history. It is a parameter: for game \<open>g\<close> and the two agents,
  \<open>playToEnd\<close> gives the final board and the triples each agent pushed. \<open>isCheckmate\<close>
  and \<open>turnOf\<close> are the library's answers on a board, \<open>winJitter g\<close> the draw of
  \<open>updateStats\<close> for the winner of game \<open>g\<close>. Writing to the persistence files is
  left out.
\<close>

record Play =
  playToEnd :: "nat \<Rightarrow> NeuralNetwork \<Rightarrow> NeuralNetwork \<Rightarrow> Chess \<times> HistoryItem list \<times> HistoryItem list"
  isCheckmate :: "Chess \<Rightarrow> bool"
  turnOf :: "Chess \<Rightarrow> Color"
  winJitter :: "nat \<Rightarrow> real"

datatype Winner = WhiteWinner | BlackWinner | DrawWinner

text \<open>
  The clamp of the handler: \<open>Math.min(Math.max(1, numGames || 5), 50)\<close>. The count the
  client sends is any JavaScript number, whole or not, and nothing rounds it; \<open>None\<close>
  stands for a count that is missing (or \<open>NaN\<close>), which \<open>||\<close> replaces by 5 as it does
  zero.
\<close>

definition clampGames :: "real option \<Rightarrow> real" where
  "clampGames numGames =
     min (max 1 (case numGames of None \<Rightarrow> 5 | Some n \<Rightarrow> if n = 0 then 5 else n)) 50"

definition pushAll :: "HistoryItem list \<Rightarrow> NeuralNetwork \<Rightarrow> NeuralNetwork" where
  "pushAll items s = s\<lparr>gameHistory := gameHistory s @ items\<rparr>"

text \<open>
  The body of the loop \<open>for (let game = 0; game < numGames; game++)\<close>: the counter is a
  whole number, the bound \<open>numGames\<close> is the clamped count as it is.
\<close>

definition quickTrainGame ::
  "Play \<Rightarrow> real \<Rightarrow> int \<Rightarrow> GameManager \<times> nat \<times> nat \<times> nat \<times> Emitted list
   \<Rightarrow> GameManager \<times> nat \<times> nat \<times> nat \<times> Emitted list" where
  "quickTrainGame P numGames game st =
     (case st of (gm, whiteWins, blackWins, drawCount, out) \<Rightarrow>
        (let (board, whiteItems, blackItems) =
               playToEnd P (nat game) (whiteAI gm) (blackAI gm);
             white1 = pushAll whiteItems (whiteAI gm);
             black1 = pushAll blackItems (blackAI gm);
             winner = (if isCheckmate P board
                       then (if turnOf P board = White then BlackWinner else WhiteWinner)
                       else DrawWinner);
             jitter = winJitter P (nat game);
             (white2, black2, ww, bw, dc) =
               (if winner = WhiteWinner then
                  (learn Win (updateStats jitter Win white1),
                   learn Loss (updateStats jitter Loss black1),
                   whiteWins + 1, blackWins, drawCount)
                else if winner = BlackWinner then
                  (learn Loss (updateStats jitter Loss white1),
                   learn Win (updateStats jitter Win black1),
                   whiteWins, blackWins + 1, drawCount)
                else
                  (learn Draw (updateStats jitter Draw white1),
                   learn Draw (updateStats jitter Draw black1),
                   whiteWins, blackWins, drawCount + 1));
             progress = (if (game + 1) mod 5 = 0 \<or> of_int game = numGames - 1
                         then [QuickTrainProgress (game + 1) numGames ww bw dc] else [])
         in (gm\<lparr>chess := board, whiteAI := white2, blackAI := black2\<rparr>,
             ww, bw, dc, out @ progress)))"

text \<open>The iterations the loop has left, one fewer after each.\<close>

lemma remaining_games_step:
  assumes "of_int game < (numGames :: real)"
  shows "nat \<lceil>numGames - of_int game\<rceil> = Suc (nat \<lceil>numGames - of_int (game + 1)\<rceil>)"
proof -
  have "numGames - of_int (game + 1) = (numGames - of_int game) - 1"
    by simp
  then have "\<lceil>numGames - of_int (game + 1)\<rceil> = \<lceil>numGames - of_int game\<rceil> - 1"
    by (simp only: ceiling_diff_one)
  moreover have "0 < \<lceil>numGames - of_int game\<rceil>"
    using assms by (simp add: less_ceiling_iff)
  ultimately show ?thesis
    by simp
qed

function quickTrainLoop ::
  "Play \<Rightarrow> real \<Rightarrow> int \<Rightarrow> GameManager \<times> nat \<times> nat \<times> nat \<times> Emitted list
   \<Rightarrow> GameManager \<times> nat \<times> nat \<times> nat \<times> Emitted list" where
  "quickTrainLoop P numGames game st =
     (if of_int game < numGames
      then quickTrainLoop P numGames (game + 1) (quickTrainGame P numGames game st)
      else st)"
  by pat_completeness auto
termination
proof (relation "measure (\<lambda>(P, numGames, game, st). nat \<lceil>numGames - of_int game\<rceil>)")
  show "wf (measure (\<lambda>(P, numGames, game, st). nat \<lceil>numGames - of_int game\<rceil>))"
    by simp
next
  fix P :: Play and numGames :: real and game :: int
    and st :: "GameManager \<times> nat \<times> nat \<times> nat \<times> Emitted list"
  assume "of_int game < numGames"
  then have "nat \<lceil>numGames - of_int game\<rceil> = Suc (nat \<lceil>numGames - of_int (game + 1)\<rceil>)"
    by (rule remaining_games_step)
  then show "((P, numGames, game + 1, quickTrainGame P numGames game st), (P, numGames, game, st))
      \<in> measure (\<lambda>(P, numGames, game, st). nat \<lceil>numGames - of_int game\<rceil>)"
    by simp
qed

declare quickTrainLoop.simps [simp del]

definition quickTrain ::
  "Play \<Rightarrow> real \<Rightarrow> GameManager \<Rightarrow> GameManager \<times> QuickTrainResults \<times> Emitted list" where
  "quickTrain P numGames gm =
     (let (gm1, out1) = (if isRunning gm then pause gm else (gm, []));
          (gm2, whiteWins, blackWins, drawCount, out2) =
            quickTrainLoop P numGames 0 (gm1, 0, 0, 0, out1)
      in (gm2\<lparr>chess := newGame\<rparr>,
          \<lparr>resGamesPlayed = numGames, resWhiteWins = whiteWins, resBlackWins = blackWins,
           resDraws = drawCount\<rparr>,
          out2))"

definition quickTrainHandler ::
  "Play \<Rightarrow> real option \<Rightarrow> GameManager \<Rightarrow> GameManager \<times> Emitted list" where
  "quickTrainHandler P numGames gm =
     (let games = clampGames numGames;
          (gm1, results, out) = quickTrain P games gm
      in (gm1, [QuickTrainStarted games] @ out @ [QuickTrainComplete results, GameStateBroadcast]))"

text \<open>A manager as the constructor leaves it with no saved state, and sample inputs.\<close>

definition newGameManager :: GameManager where
  "newGameManager =
     \<lparr>chess = newGame, whiteAI = newNeuralNetwork White 800,
      blackAI = newNeuralNetwork Black 800, timer = None, moveIntervalMs = 800,
      isRunning = False, moveTimesMs = [], stockfish = False, isBenchmarking = False,
      blunderDetector = \<lparr>evalHistory = [], moveHistory = [], lastMoveNumber = 0\<rparr>,
      lastEval = 0, lastMoveEval = None, opponentBot = None, playingAgainstBotId = None,
      pendingTimeouts = []\<rparr>"

text \<open>
  A manager in the middle of a game: two moves played, a timeout pending, and the
  white agent with one triple on its game history.
\<close>

definition midGameManager :: GameManager where
  "midGameManager =
     newGameManager
       \<lparr>chess := \<lparr>chessFen = ''rnbqkbnr/pppp1ppp/8/4p3/4P3/8/PPPP1PPP/RNBQKBNR w KQkq - 0 2'',
                  chessHistory = [''e4'', ''e5'']\<rparr>,
        whiteAI := sampleAgent, timer := Some 7, isRunning := True,
        moveTimesMs := [12, 9], pendingTimeouts := [7]\<rparr>"

text \<open>
  What the first move of a benchmark game reads: the sample book, rules and moves, and
  draws that are all one half.
\<close>

definition sampleEnv :: DecisionEnv where
  "sampleEnv =
     \<lparr>envBook = sampleBook, envRules = sampleRules, envSearchDraws = (\<lambda>i. 1 / 2),
      envSimulate = (\<lambda>i fen. 1 / 2), envDraws = (\<lambda>i. 1 / 2), envCursor = 0,
      envStartMoves = sampleMoves\<rparr>"

text \<open>A play in which every game ends at once in a mate by black (the fool's mate).\<close>

definition samplePlay :: Play where
  "samplePlay =
     \<lparr>playToEnd = (\<lambda>g w b.
        (\<lparr>chessFen = ''rnb1kbnr/pppp1ppp/8/4p3/6Pq/5P2/PPPPP2P/RNBQKBNR w KQkq - 1 3'',
          chessHistory = [''f3'', ''e5'', ''g4'', ''Qh4#'']\<rparr>, [], [])),
      isCheckmate = (\<lambda>board. True),
      turnOf = (\<lambda>board. White),
      winJitter = (\<lambda>g. 1 / 2)\<rparr>"

section \<open>Properties of the value table\<close>

lemma map_of_update_same: "map_of (AList.update k v al) k = Some v"
  by (simp add: update_conv')

lemma getQValue_setQValue: "getQValue (setQValue k m v q) k m = v"
  by (simp add: getQValue_def setQValue_def Let_def map_of_update_same)

section \<open>Properties of the learning step\<close>

lemma learn_loop_foldr:
  "n \<le> length h \<Longrightarrow> learn_loop h n st = foldr backwardStep (take n h) st"
proof (induction n arbitrary: st)
  case 0
  then show ?case by (cases st) simp
next
  case (Suc n)
  obtain q c where st: "st = (q, c)" by (cases st)
  from Suc.prems have n: "n < length h" by simp
  have tk: "take (Suc n) h = take n h @ [h ! n]"
    using n by (simp add: take_Suc_conv_app_nth)
  have step: "backwardStep (h ! n) (q, c) =
      (setQValue (positionHash (h ! n)) (move (h ! n))
         (getQValue q (positionHash (h ! n)) (move (h ! n))
            + LEARNING_RATE * (c - getQValue q (positionHash (h ! n)) (move (h ! n)))) q,
       reward (h ! n) + DISCOUNT_FACTOR * c)"
    by (simp add: backwardStep_def Let_def LEARNING_RATE_def DISCOUNT_FACTOR_def)
  have "learn_loop h (Suc n) st = learn_loop h n (backwardStep (h ! n) (q, c))"
    by (simp add: st Let_def step)
  also have "\<dots> = foldr backwardStep (take n h) (backwardStep (h ! n) (q, c))"
    using Suc.IH n by simp
  finally show ?case by (simp add: tk st)
qed

text \<open>
  C5. \<open>learn\<close> clears the game trace, and a second consecutive \<open>learn\<close>, whatever its
  outcome argument, leaves the value table exactly as the first call left it.
\<close>

theorem learn_twice_table_unchanged:
  "gameHistory (learn r1 s) = [] \<and> qTable (learn r2 (learn r1 s)) = qTable (learn r1 s)"
  by (simp add: learn_def Let_def)

text \<open>
  C1. For every outcome and every recorded trace, \<open>learn\<close> leaves the value table that
  the backward walk of the specification computes: seeded with the terminal reward of
  the outcome (win 1, loss -1, draw 0.1), each recorded triple, last one first, gets
  \<open>oldValue + 0.1 (cumulativeReward - oldValue)\<close> written and then
  \<open>cumulativeReward\<close> becomes \<open>immediateReward + 0.9 cumulativeReward\<close>; and a value
  written by \<open>setQValue\<close> is the value \<open>getQValue\<close> reads back.
\<close>

theorem learn_is_backward_walk:
  "qTable (learn result s) = backwardWalk (gameHistory s) (qTable s) (terminalReward result)
   \<and> getQValue (setQValue k m v q) k m = v"
proof -
  have seed: "(if result = Win then 1 else if result = Loss then - 1 else 1 / 10)
      = terminalReward result"
    by (cases result) (simp_all add: terminalReward_def)
  have "fst (learn_loop (gameHistory s) (length (gameHistory s))
          (qTable s, terminalReward result))
      = backwardWalk (gameHistory s) (qTable s) (terminalReward result)"
    by (simp add: learn_loop_foldr backwardWalk_def)
  then have "qTable (learn result s)
      = backwardWalk (gameHistory s) (qTable s) (terminalReward result)"
    by (simp add: learn_def Let_def seed)
  then show ?thesis by (simp add: getQValue_setQValue)
qed

section \<open>Capacity and eviction\<close>

lemma update_fresh: "k \<notin> fst ` set al \<Longrightarrow> AList.update k v al = al @ [(k, v)]"
  by (induction al) auto

lemma update_last: "k \<notin> fst ` set al \<Longrightarrow> AList.update k v (al @ [(k, w)]) = al @ [(k, v)]"
  by (induction al) auto

lemma delete_all_filter:
  "foldl (\<lambda>t e. AList.delete (fst e) t) q es = filter (\<lambda>p. fst p \<notin> fst ` set es) q"
proof (induction es arbitrary: q)
  case Nil
  then show ?case by simp
next
  case (Cons e es)
  have "AList.delete (fst e) q = filter (\<lambda>p. fst p \<noteq> fst e) q"
    by (simp add: AList.delete_eq case_prod_unfold) metis
  then show ?case
    by (simp add: Cons.IH)
qed

lemma toRemove_div: "nat \<lfloor>real n * (2 / 10)\<rfloor> = n div 5"
proof -
  have "real n * (2 / 10) = real n / real 5" by simp
  then have "\<lfloor>real n * (2 / 10)\<rfloor> = \<lfloor>real n / real 5\<rfloor>" by simp
  also have "\<dots> = int (n div 5)" by (rule floor_divide_of_nat_eq)
  finally show ?thesis by simp
qed

lemma length_pruneEntries: "length (pruneEntries q) = length q"
  by (simp add: pruneEntries_def)

lemma pruneQTable_filter:
  "pruneQTable q =
     filter (\<lambda>p. fst p \<notin> fst ` set (take (length q div 5) (pruneEntries q))) q"
  unfolding pruneQTable_def Let_def toRemove_div
  by (simp add: delete_all_filter length_pruneEntries)

lemma entries_keys: "map fst (map (\<lambda>(pos, moves). (pos, totalVisits moves)) q) = map fst q"
  by (induction q) auto

lemma set_pruneEntries:
  "set (pruneEntries q) = (\<lambda>(pos, moves). (pos, totalVisits moves)) ` set q"
  by (simp add: pruneEntries_def)

lemma keys_pruneEntries: "fst ` set (pruneEntries q) = fst ` set q"
  by (force simp: set_pruneEntries)

lemma distinct_keys_pruneEntries:
  assumes "distinct (map fst q)"
  shows "distinct (map fst (pruneEntries q))"
proof -
  let ?es = "map (\<lambda>(pos, moves). (pos, totalVisits moves)) q"
  have "distinct (map fst ?es)"
    using assms by (simp only: entries_keys)
  then have "distinct ?es \<and> inj_on fst (set ?es)"
    by (simp only: distinct_map)
  then have "distinct (sort_key snd ?es) \<and> inj_on fst (set (sort_key snd ?es))"
    by simp
  then show ?thesis
    unfolding pruneEntries_def by (simp only: distinct_map)
qed

lemma keys_pruneQTable:
  "fst ` set (pruneQTable q) =
     fst ` set q - fst ` set (take (length q div 5) (pruneEntries q))"
  by (subst pruneQTable_filter) force

lemma distinct_pruneQTable: "distinct (map fst q) \<Longrightarrow> distinct (map fst (pruneQTable q))"
  by (subst pruneQTable_filter) (simp add: distinct_map_filter)

lemma length_pruneQTable:
  assumes d: "distinct (map fst q)"
  shows "length (pruneQTable q) = length q - length q div 5"
proof -
  let ?r = "length q div 5"
  let ?R = "fst ` set (take ?r (pruneEntries q))"
  have "distinct (take ?r (map fst (pruneEntries q)))"
    using distinct_keys_pruneEntries [OF d] by (rule distinct_take)
  then have dR: "distinct (map fst (take ?r (pruneEntries q)))"
    by (simp only: take_map)
  have "card (set (map fst (take ?r (pruneEntries q)))) = length (map fst (take ?r (pruneEntries q)))"
    using dR by (rule distinct_card)
  then have cR: "card ?R = ?r"
    by (simp add: length_pruneEntries)
  have sub: "?R \<subseteq> fst ` set q"
    using keys_pruneEntries [of q] set_take_subset [of ?r "pruneEntries q"] by blast
  have cK: "card (fst ` set q) = length q"
    using distinct_card [OF d] by simp
  have "length (pruneQTable q) = length (map fst (pruneQTable q))"
    by simp
  also have "\<dots> = length (filter (\<lambda>k. k \<notin> ?R) (map fst q))"
    by (subst pruneQTable_filter) (simp only: filter_map comp_def length_map)
  also have "\<dots> = card ({k. k \<notin> ?R} \<inter> set (map fst q))"
    using d by (rule distinct_length_filter)
  also have "{k. k \<notin> ?R} \<inter> set (map fst q) = fst ` set q - ?R"
    by auto
  also have "card (fst ` set q - ?R) = card (fst ` set q) - card ?R"
    using sub by (intro card_Diff_subset) (auto intro: finite_subset)
  finally show ?thesis
    by (simp add: cR cK)
qed

lemma pruneEntries_sorted: "sorted (map snd (pruneEntries q))"
  by (simp add: pruneEntries_def)

lemma sorted_take_drop:
  assumes "sorted (map f xs)" and "a \<in> set (take n xs)" and "b \<in> set (drop n xs)"
  shows "f a \<le> f b"
proof -
  have "sorted (map f (take n xs) @ map f (drop n xs))"
    using assms(1) by (simp only: map_append [symmetric] append_take_drop_id)
  then show ?thesis
    using assms(2,3) by (auto simp: sorted_append)
qed

lemma entry_aggregate:
  assumes d: "distinct (map fst q)" and e: "e \<in> set (pruneEntries q)"
  shows "snd e = aggregateVisits q (fst e)"
proof -
  from e obtain pos moves where pm: "(pos, moves) \<in> set q" and eq: "e = (pos, totalVisits moves)"
    by (auto simp: set_pruneEntries)
  from d pm have "map_of q pos = Some moves"
    by (rule map_of_is_SomeI)
  then show ?thesis
    by (simp add: eq aggregateVisits_def)
qed

lemma prune_removes_lowest:
  assumes d: "distinct (map fst q)"
    and k: "k \<in> fst ` set q" and kr: "k \<notin> fst ` set (pruneQTable q)"
    and k': "k' \<in> fst ` set (pruneQTable q)"
  shows "aggregateVisits q k \<le> aggregateVisits q k'"
proof -
  let ?es = "pruneEntries q"
  let ?r = "length q div 5"
  from k kr obtain a where a: "a \<in> set (take ?r ?es)" and ka: "fst a = k"
    by (auto simp: keys_pruneQTable)
  from k' have k'q: "k' \<in> fst ` set q" and k'R: "k' \<notin> fst ` set (take ?r ?es)"
    by (auto simp: keys_pruneQTable)
  from k'q have "k' \<in> fst ` set ?es"
    by (simp only: keys_pruneEntries)
  then obtain b where b: "b \<in> set ?es" and kb: "fst b = k'"
    by auto
  have "set ?es = set (take ?r ?es) \<union> set (drop ?r ?es)"
    by (simp only: set_append [symmetric] append_take_drop_id)
  with b k'R kb have bd: "b \<in> set (drop ?r ?es)"
    by auto
  have "snd a \<le> snd b"
    using pruneEntries_sorted a bd by (rule sorted_take_drop)
  moreover have "snd a = aggregateVisits q k"
    using entry_aggregate [OF d, of a] a ka set_take_subset [of ?r ?es] by auto
  moreover have "snd b = aggregateVisits q k'"
    using entry_aggregate [OF d b] kb by simp
  ultimately show ?thesis by simp
qed

lemma length_update_present:
  "k \<in> fst ` set al \<Longrightarrow> length (AList.update k v al) = length al"
  by (induction al) auto

lemma setQValue_old:
  assumes "map_of q k = Some pe"
  shows "setQValue k m v q =
     AList.update k
       (AList.update m
          \<lparr>val = v, visits = (case map_of pe m of Some e \<Rightarrow> visits e + 1 | None \<Rightarrow> 1)\<rparr> pe) q"
  using assms by (simp add: setQValue_def Let_def)

lemma setQValue_new:
  assumes "map_of q k = None"
  shows "setQValue k m v q =
     (if MAX_POSITIONS \<le> length q then pruneQTable q else q)
       @ [(k, [(m, \<lparr>val = v, visits = 1\<rparr>)])]"
proof -
  define b where "b = (if MAX_POSITIONS \<le> length q then pruneQTable q else q)"
  have kq: "k \<notin> fst ` set q"
    using assms by (simp add: map_of_eq_None_iff)
  have kb: "k \<notin> fst ` set b"
    using kq by (auto simp: b_def keys_pruneQTable)
  have q1: "AList.update k [] b = b @ [(k, [])]"
    using kb by (rule update_fresh)
  have nb: "map_of b k = None"
    using kb by (simp add: map_of_eq_None_iff)
  have look: "map_of (b @ [(k, [])]) k = Some []"
    by (simp add: nb map_add_def)
  have "setQValue k m v q =
      AList.update k (AList.update m \<lparr>val = v, visits = 1\<rparr> []) (b @ [(k, [])])"
    unfolding setQValue_def Let_def b_def [symmetric]
    by (simp only: assms if_True q1 look option.case refl map_of.simps)
  also have "\<dots> = b @ [(k, [(m, \<lparr>val = v, visits = 1\<rparr>)])]"
    using kb by (simp add: update_last)
  finally show ?thesis by (simp only: b_def)
qed

lemma setQValue_distinct:
  "distinct (map fst q) \<Longrightarrow> distinct (map fst (setQValue k m v q))"
  by (simp add: setQValue_def Let_def distinct_update distinct_pruneQTable)

lemma setQValue_length:
  assumes d: "distinct (map fst q)" and n: "length q \<le> MAX_POSITIONS"
  shows "length (setQValue k m v q) \<le> MAX_POSITIONS"
proof (cases "map_of q k")
  case None
  show ?thesis
  proof (cases "MAX_POSITIONS \<le> length q")
    case True
    with n have "length q = 10000" by (simp add: MAX_POSITIONS_def)
    then have "length (pruneQTable q) = 8000"
      using length_pruneQTable [OF d] by simp
    then show ?thesis
      using True by (simp add: setQValue_new [OF None] MAX_POSITIONS_def)
  next
    case False
    then show ?thesis
      by (simp add: setQValue_new [OF None])
  qed
next
  case (Some pe)
  then have "k \<in> fst ` set q"
    by (metis map_of_eq_None_iff option.distinct(1))
  then show ?thesis
    using n by (simp add: setQValue_old [OF Some] length_update_present)
qed

lemma updateAll_invariant:
  "distinct (map fst q) \<Longrightarrow> length q \<le> MAX_POSITIONS \<Longrightarrow>
   distinct (map fst (updateAll us q)) \<and> length (updateAll us q) \<le> MAX_POSITIONS"
proof (induction us arbitrary: q)
  case Nil
  then show ?case by (simp add: updateAll_def)
next
  case (Cons u us)
  have "updateAll (u # us) q = updateAll us (setQValue (fst u) (fst (snd u)) (snd (snd u)) q)"
    by (simp add: updateAll_def)
  then show ?case
    using Cons.IH [OF setQValue_distinct [OF Cons.prems(1)]
                      setQValue_length [OF Cons.prems(1) Cons.prems(2)]]
    by simp
qed

text \<open>
  C2. Starting from the empty table, after any sequence of updates the table holds at
  most 10,000 positions, all distinct; more generally an update of a table of distinct
  positions within the bound stays within it. An update with a new position for a table
  that already holds 10,000 positions or more evicts first and then inserts the new
  position at the end. The eviction removes the first fifth (rounded down) of the
  positions in ascending order of their aggregate visit counts (ties in table order):
  on a table of distinct positions that is one fifth of the positions, and every evicted
  position has an aggregate visit count no greater than that of every position kept.
\<close>

theorem value_store_capacity_and_eviction:
  "length (updateAll us []) \<le> 10000 \<and> distinct (map fst (updateAll us []))
   \<and> (distinct (map fst q) \<and> length q \<le> 10000 \<longrightarrow>
        distinct (map fst (setQValue k m v q)) \<and> length (setQValue k m v q) \<le> 10000)
   \<and> (map_of full k = None \<and> 10000 \<le> length full \<longrightarrow>
        setQValue k m v full = pruneQTable full @ [(k, [(m, \<lparr>val = v, visits = 1\<rparr>)])])
   \<and> pruneQTable q =
        filter (\<lambda>p. fst p \<notin> fst ` set (take (length q div 5)
          (sort_key snd (map (\<lambda>(pos, moves). (pos, totalVisits moves)) q)))) q
   \<and> (distinct (map fst q) \<longrightarrow>
        length (pruneQTable q) = length q - length q div 5
        \<and> (\<forall>x \<in> fst ` set q - fst ` set (pruneQTable q). \<forall>y \<in> fst ` set (pruneQTable q).
              aggregateVisits q x \<le> aggregateVisits q y))"
proof -
  have a: "distinct (map fst (updateAll us [])) \<and> length (updateAll us []) \<le> MAX_POSITIONS"
    by (rule updateAll_invariant) simp_all
  have b: "distinct (map fst q) \<and> length q \<le> 10000 \<longrightarrow>
        distinct (map fst (setQValue k m v q)) \<and> length (setQValue k m v q) \<le> 10000"
    using setQValue_distinct [of q k m v] setQValue_length [of q k m v]
    by (simp add: MAX_POSITIONS_def)
  have c: "map_of full k = None \<and> 10000 \<le> length full \<longrightarrow>
        setQValue k m v full = pruneQTable full @ [(k, [(m, \<lparr>val = v, visits = 1\<rparr>)])]"
    using setQValue_new [of full k m v] by (simp add: MAX_POSITIONS_def)
  have d: "pruneQTable q =
        filter (\<lambda>p. fst p \<notin> fst ` set (take (length q div 5)
          (sort_key snd (map (\<lambda>(pos, moves). (pos, totalVisits moves)) q)))) q"
    using pruneQTable_filter [of q] by (simp only: pruneEntries_def)
  have e: "distinct (map fst q) \<longrightarrow>
        length (pruneQTable q) = length q - length q div 5
        \<and> (\<forall>x \<in> fst ` set q - fst ` set (pruneQTable q). \<forall>y \<in> fst ` set (pruneQTable q).
              aggregateVisits q x \<le> aggregateVisits q y)"
    using length_pruneQTable [of q] prune_removes_lowest [of q] by blast
  from a b c d e show ?thesis
    by (simp only: MAX_POSITIONS_def)
qed

lemma k_not_replicate_x: "''k'' \<noteq> replicate i CHR ''x''"
  by (cases i) simp_all

lemma tableOfSize_fresh: "map_of (tableOfSize n) ''k'' = None"
  unfolding tableOfSize_def map_of_eq_None_iff
  by (auto simp: k_not_replicate_x)

lemma length_tableOfSize: "length (tableOfSize n) = n"
  by (simp add: tableOfSize_def)

theorem value_store_capacity_and_eviction_witness:
  "distinct (map fst sampleTable) \<and> length sampleTable \<le> 10000
   \<and> length (setQValue ''f'' ''e4'' (1 / 2) sampleTable) \<le> 10000
   \<and> map_of (tableOfSize 10000) ''k'' = None \<and> 10000 \<le> length (tableOfSize 10000)
   \<and> setQValue ''k'' ''e4'' 0 (tableOfSize 10000) =
        pruneQTable (tableOfSize 10000) @ [(''k'', [(''e4'', \<lparr>val = 0, visits = 1\<rparr>)])]
   \<and> length (pruneQTable sampleTable) = 4
   \<and> ''c'' \<in> fst ` set sampleTable - fst ` set (pruneQTable sampleTable)
   \<and> ''a'' \<in> fst ` set (pruneQTable sampleTable)
   \<and> aggregateVisits sampleTable ''c'' \<le> aggregateVisits sampleTable ''a''"
proof -
  note inst1 = value_store_capacity_and_eviction
    [of "[]" sampleTable "''f''" "''e4''" "1 / 2" "tableOfSize 10000"]
  note inst2 = value_store_capacity_and_eviction
    [of "[]" sampleTable "''k''" "''e4''" 0 "tableOfSize 10000"]
  have d: "distinct (map fst sampleTable)"
    by (simp add: sampleTable_def)
  have l: "length sampleTable \<le> 10000"
    by (simp add: sampleTable_def)
  have l5: "length sampleTable = 5"
    by (simp add: sampleTable_def)
  have f: "map_of (tableOfSize 10000) ''k'' = None"
    by (rule tableOfSize_fresh)
  have n: "10000 \<le> length (tableOfSize 10000)"
    by (simp only: length_tableOfSize)
  have keys: "fst ` set sampleTable = {''a'', ''b'', ''c'', ''d'', ''e''}"
    by (simp add: sampleTable_def)
  have "map fst (pruneQTable sampleTable) = [''a'', ''b'', ''d'', ''e'']"
    by (simp add: pruneQTable_filter pruneEntries_def sampleTable_def totalVisits_def)
  then have "set (map fst (pruneQTable sampleTable)) = set [''a'', ''b'', ''d'', ''e'']"
    by (rule arg_cong)
  then have kept: "fst ` set (pruneQTable sampleTable) = {''a'', ''b'', ''d'', ''e''}"
    by simp
  have c: "''c'' \<in> fst ` set sampleTable - fst ` set (pruneQTable sampleTable)"
    by (simp add: keys kept)
  have a: "''a'' \<in> fst ` set (pruneQTable sampleTable)"
    by (simp add: kept)
  from inst1 d l have 1: "length (setQValue ''f'' ''e4'' (1 / 2) sampleTable) \<le> 10000"
    by blast
  from inst2 f n have 2: "setQValue ''k'' ''e4'' 0 (tableOfSize 10000) =
        pruneQTable (tableOfSize 10000) @ [(''k'', [(''e4'', \<lparr>val = 0, visits = 1\<rparr>)])]"
    by blast
  from inst1 d have 3: "length (pruneQTable sampleTable) = length sampleTable - length sampleTable div 5"
    by blast
  from inst1 d c a have 4: "aggregateVisits sampleTable ''c'' \<le> aggregateVisits sampleTable ''a''"
    by blast
  from d l 1 f n 2 3 c a 4 show ?thesis
    by (simp only: l5) simp
qed

section \<open>Export followed by import\<close>

lemma rebuild_alist:
  "distinct (map fst (acc @ xs)) \<Longrightarrow>
   foldl (\<lambda>obj (k, v). AList.update k (f v) obj) acc xs = acc @ map (\<lambda>(k, v). (k, f v)) xs"
proof (induction xs arbitrary: acc)
  case Nil
  then show ?case by simp
next
  case (Cons x xs)
  obtain k v where x: "x = (k, v)" by (cases x)
  from Cons.prems have fresh: "k \<notin> fst ` set acc"
    by (auto simp: x)
  from Cons.prems have d: "distinct (map fst ((acc @ [(k, f v)]) @ xs))"
    by (simp add: x)
  have "foldl (\<lambda>obj (k, v). AList.update k (f v) obj) acc (x # xs)
      = foldl (\<lambda>obj (k, v). AList.update k (f v) obj) (acc @ [(k, f v)]) xs"
    by (simp add: x update_fresh [OF fresh])
  also have "\<dots> = (acc @ [(k, f v)]) @ map (\<lambda>(k, v). (k, f v)) xs"
    using d by (rule Cons.IH)
  finally show ?case by (simp add: x)
qed

lemma rebuild_moves:
  "distinct (map fst ms) \<Longrightarrow> foldl (\<lambda>obj (mv, entry). AList.update mv entry obj) [] ms = ms"
  using rebuild_alist [of "[]" ms "\<lambda>e. e"] by (simp add: case_prod_unfold)

lemma rebuild_table:
  assumes "wellFormedTable q"
  shows "foldl (\<lambda>qTableObj (pos, moves).
                 AList.update pos
                   (foldl (\<lambda>obj (mv, entry). AList.update mv entry obj) [] moves) qTableObj)
          [] q = q"
proof -
  let ?f = "\<lambda>moves. foldl (\<lambda>obj (mv, entry). AList.update mv entry obj) [] moves"
  from assms have d: "distinct (map fst q)"
    and m: "\<forall>p \<in> set q. distinct (map fst (snd p))"
    by (simp_all add: wellFormedTable_def list_all_iff)
  have "foldl (\<lambda>obj (k, v). AList.update k (?f v) obj) [] q = [] @ map (\<lambda>(k, v). (k, ?f v)) q"
    by (rule rebuild_alist) (simp add: d)
  also have "map (\<lambda>(k, v). (k, ?f v)) q = map (\<lambda>p. p) q"
    by (rule map_cong) (use m in \<open>auto simp: rebuild_moves\<close>)
  finally show ?thesis by simp
qed

text \<open>
  C9. Importing an exported snapshot (into any agent object \<open>t\<close>) restores the game,
  win, loss and draw counters, the three streak fields and the whole value table, every
  entry with its value and visit count; the rating comes back as its integer floor, and
  the exploration rate is recomputed as \<open>max 0.05 (0.3 * 0.995 ^ gamesPlayed)\<close>
  whatever it was before the export.
\<close>

theorem import_export_roundtrip:
  assumes "wellFormedTable (qTable s)"
  shows "gamesPlayed (importState (exportState s) t) = gamesPlayed s
    \<and> wins (importState (exportState s) t) = wins s
    \<and> losses (importState (exportState s) t) = losses s
    \<and> draws (importState (exportState s) t) = draws s
    \<and> currentStreak (importState (exportState s) t) = currentStreak s
    \<and> bestWinStreak (importState (exportState s) t) = bestWinStreak s
    \<and> bestLossStreak (importState (exportState s) t) = bestLossStreak s
    \<and> qTable (importState (exportState s) t) = qTable s
    \<and> elo (importState (exportState s) t) = of_int \<lfloor>elo s\<rfloor>
    \<and> explorationRate (importState (exportState s) t)
          = max (5 / 100) ((3 / 10) * (995 / 1000) ^ gamesPlayed s)"
proof -
  have tab: "st_qTable (exportState s) = qTable s"
    using rebuild_table [OF assms] by (simp add: exportState_def)
  have "qTable (importState (exportState s) t) =
      foldl (\<lambda>q (pos, movesObj).
               AList.update pos
                 (foldl (\<lambda>moves (mv, entry). AList.update mv entry moves) [] movesObj) q)
        [] (st_qTable (exportState s))"
    by (simp add: importState_def)
  also have "\<dots> = qTable s"
    unfolding tab by (rule rebuild_table [OF assms])
  finally have q: "qTable (importState (exportState s) t) = qTable s" .
  have rest: "gamesPlayed (importState (exportState s) t) = gamesPlayed s
    \<and> wins (importState (exportState s) t) = wins s
    \<and> losses (importState (exportState s) t) = losses s
    \<and> draws (importState (exportState s) t) = draws s
    \<and> currentStreak (importState (exportState s) t) = currentStreak s
    \<and> bestWinStreak (importState (exportState s) t) = bestWinStreak s
    \<and> bestLossStreak (importState (exportState s) t) = bestLossStreak s
    \<and> elo (importState (exportState s) t) = of_int \<lfloor>elo s\<rfloor>
    \<and> explorationRate (importState (exportState s) t)
          = max (5 / 100) ((3 / 10) * (995 / 1000) ^ gamesPlayed s)"
    by (simp add: importState_def exportState_def orZero_def MIN_EXPLORATION_def
        INITIAL_EXPLORATION_def EXPLORATION_DECAY_def)
  from q rest show ?thesis by simp
qed

theorem import_export_roundtrip_witness:
  "wellFormedTable (qTable sampleAgent)
   \<and> gamesPlayed (importState (exportState sampleAgent) (newNeuralNetwork Black 800)) = 3
   \<and> qTable (importState (exportState sampleAgent) (newNeuralNetwork Black 800)) = sampleTable
   \<and> elo sampleAgent = 8127 / 10
   \<and> elo (importState (exportState sampleAgent) (newNeuralNetwork Black 800)) = 812
   \<and> explorationRate sampleAgent = 29 / 100
   \<and> explorationRate (importState (exportState sampleAgent) (newNeuralNetwork Black 800))
        = 2955224625 / 10000000000"
proof -
  have wf: "wellFormedTable (qTable sampleAgent)"
    by (simp add: wellFormedTable_def sampleAgent_def sampleTable_def)
  note r = import_export_roundtrip [OF wf, of "newNeuralNetwork Black 800"]
  have fl: "\<lfloor>elo sampleAgent\<rfloor> = 812"
    by (simp add: sampleAgent_def)
  have g: "gamesPlayed sampleAgent = 3" and e: "elo sampleAgent = 8127 / 10"
    and x: "explorationRate sampleAgent = 29 / 100" and q: "qTable sampleAgent = sampleTable"
    by (simp_all add: sampleAgent_def)
  have p: "max (5 / 100) ((3 / 10) * (995 / 1000) ^ (3::nat)) = (2955224625 / 10000000000 :: real)"
    by (simp add: power3_eq_cube)
  from r wf show ?thesis
    by (simp only: g q fl p) (simp add: e x)
qed

section \<open>Properties of the position key\<close>

lemma splitSpace_nonempty: "splitSpace s \<noteq> []"
  by (induction s) (auto split: list.splits)

lemma splitSpace_spaceFree: "spaceFree w \<Longrightarrow> splitSpace w = [w]"
  by (induction w) (auto simp: spaceFree_def)

lemma splitSpace_append:
  "spaceFree w \<Longrightarrow> splitSpace (w @ CHR '' '' # rest) = w # splitSpace rest"
  by (induction w) (auto simp: spaceFree_def)

lemma splitSpace_joinSpace:
  "fs \<noteq> [] \<Longrightarrow> list_all spaceFree fs \<Longrightarrow> splitSpace (joinSpace fs) = fs"
proof (induction fs rule: joinSpace.induct)
  case 1
  then show ?case by simp
next
  case (2 w)
  then show ?case by (simp add: splitSpace_spaceFree)
next
  case (3 w v ws)
  then show ?case by (simp add: splitSpace_append)
qed

lemma digit_spaceFree: "d < 10 \<Longrightarrow> ''0123456789'' ! d \<noteq> CHR '' ''"
proof -
  assume "d < 10"
  then have "''0123456789'' ! d \<in> set ''0123456789''"
    by (intro nth_mem) simp
  then show ?thesis by auto
qed

lemma showNat_spaceFree: "spaceFree (showNat n)"
proof (induction n rule: showNat.induct)
  case (1 n)
  show ?case
  proof (cases "n < 10")
    case True
    then show ?thesis
      using digit_spaceFree [of n] by (subst showNat.simps) (simp add: spaceFree_def)
  next
    case False
    then have "spaceFree (showNat (n div 10))"
      by (rule "1.IH")
    moreover have "''0123456789'' ! (n mod 10) \<noteq> CHR '' ''"
      by (rule digit_spaceFree) simp
    ultimately show ?thesis
      using False by (subst showNat.simps) (simp add: spaceFree_def)
  qed
qed

lemma hashPosition_fenOf:
  assumes "fieldsSpaceFree g"
  shows "hashPosition (fenOf g) = joinSpace [placement g, sideToMove g, castling g, epSquare g]"
proof -
  let ?fs = "[placement g, sideToMove g, castling g, epSquare g,
              showNat (halfMoves g), showNat (moveNumber g)]"
  have "list_all spaceFree ?fs"
    using assms by (simp add: fieldsSpaceFree_def showNat_spaceFree)
  then have "splitSpace (joinSpace ?fs) = ?fs"
    by (intro splitSpace_joinSpace) simp_all
  then show ?thesis
    by (simp add: hashPosition_def fenOf_def)
qed

text \<open>
  C3, as the code has it. The key of a state is its first four fields joined by spaces:
  piece placement, side to move, castling rights and the en-passant target square; the
  halfmove clock and the fullmove number are left out. Two states that agree on these
  four fields have the same key however they were reached, and in particular a state
  keeps its key when only its counters change. \<open>simplifyFen\<close> computes the same key.
\<close>

theorem position_key_four_fields:
  assumes "fieldsSpaceFree g" and "fieldsSpaceFree g'"
    and "placement g' = placement g" and "sideToMove g' = sideToMove g"
    and "castling g' = castling g" and "epSquare g' = epSquare g"
  shows "hashPosition (fenOf g) = joinSpace [placement g, sideToMove g, castling g, epSquare g]
    \<and> hashPosition (fenOf g') = hashPosition (fenOf g)
    \<and> hashPosition (fenOf (g\<lparr>halfMoves := h, moveNumber := n\<rparr>)) = hashPosition (fenOf g)
    \<and> simplifyFen (fenOf g) = hashPosition (fenOf g)"
proof -
  have "fieldsSpaceFree (g\<lparr>halfMoves := h, moveNumber := n\<rparr>)"
    using assms(1) by (simp add: fieldsSpaceFree_def)
  then have "hashPosition (fenOf (g\<lparr>halfMoves := h, moveNumber := n\<rparr>)) = hashPosition (fenOf g)"
    using assms(1) by (simp add: hashPosition_fenOf)
  moreover have "hashPosition (fenOf g') = hashPosition (fenOf g)"
    using assms by (simp add: hashPosition_fenOf)
  moreover have "simplifyFen (fenOf g) = hashPosition (fenOf g)"
    by (simp add: simplifyFen_def hashPosition_def)
  ultimately show ?thesis
    using assms(1) by (simp add: hashPosition_fenOf)
qed

theorem position_key_four_fields_witness:
  "fieldsSpaceFree afterDoubleStep
   \<and> fieldsSpaceFree (afterDoubleStep\<lparr>halfMoves := 7, moveNumber := 12\<rparr>)
   \<and> hashPosition (fenOf afterDoubleStep)
        = ''rnbqkbnr/ppp1pppp/8/8/3pP3/8/PPPP1PPP/RNBQKBNR b KQkq e3''
   \<and> hashPosition (fenOf (afterDoubleStep\<lparr>halfMoves := 7, moveNumber := 12\<rparr>))
        = hashPosition (fenOf afterDoubleStep)"
proof -
  have a: "fieldsSpaceFree afterDoubleStep"
    by (simp add: fieldsSpaceFree_def spaceFree_def afterDoubleStep_def)
  have b: "fieldsSpaceFree (afterDoubleStep\<lparr>halfMoves := 7, moveNumber := 12\<rparr>)"
    by (simp add: fieldsSpaceFree_def spaceFree_def afterDoubleStep_def)
  have j: "joinSpace [placement afterDoubleStep, sideToMove afterDoubleStep,
                      castling afterDoubleStep, epSquare afterDoubleStep]
      = ''rnbqkbnr/ppp1pppp/8/8/3pP3/8/PPPP1PPP/RNBQKBNR b KQkq e3''"
    by (simp add: afterDoubleStep_def)
  from position_key_four_fields
         [OF a b, of 7 12] a b j show ?thesis
    by simp
qed

text \<open>
  The claim as worded fails: the two sample states have the same placement, side to
  move and castling rights, and different keys, because the key also holds the
  en-passant target square, which the last move decides.
\<close>

theorem position_key_counterexample:
  "placement afterDoubleStep = placement afterSingleSteps
   \<and> sideToMove afterDoubleStep = sideToMove afterSingleSteps
   \<and> castling afterDoubleStep = castling afterSingleSteps
   \<and> hashPosition (fenOf afterDoubleStep) \<noteq> hashPosition (fenOf afterSingleSteps)"
proof -
  have a: "fieldsSpaceFree afterDoubleStep"
    by (simp add: fieldsSpaceFree_def spaceFree_def afterDoubleStep_def)
  have b: "fieldsSpaceFree afterSingleSteps"
    by (simp add: fieldsSpaceFree_def spaceFree_def afterSingleSteps_def)
  show ?thesis
    unfolding hashPosition_fenOf [OF a] hashPosition_fenOf [OF b]
    by (simp add: afterDoubleStep_def afterSingleSteps_def)
qed

section \<open>Properties of the tree search\<close>

lemma iterate_nodeMove:
  "iterate R r simulate node = Some (node', res) \<Longrightarrow> nodeMove node' = nodeMove node"
  by (cases node) (auto simp: iterate.simps Let_def split: if_splits option.splits)

lemma iterate_children_moves:
  assumes "iterate R r simulate node = Some (node', res)"
    and "\<forall>c \<in> set (children node). nodeMove c \<noteq> None"
  shows "\<forall>c \<in> set (children node'). nodeMove c \<noteq> None"
proof (cases node)
  case (MCTSNode mv cs v w un fen)
  show ?thesis
  proof (cases "un = [] \<and> cs \<noteq> []")
    case True
    let ?j = "selectChild v cs"
    from True have j: "?j < length cs"
      by (simp add: selectChild_bound)
    from assms(1) True obtain child result
      where it: "iterate R r simulate (cs ! ?j) = Some (child, result)"
        and n': "node' = MCTSNode mv (cs[?j := child]) (v + 1) (w + (1 - result)) un fen"
      by (auto simp: MCTSNode iterate.simps Let_def split: option.splits)
    have "nodeMove child = nodeMove (cs ! ?j)"
      using it by (rule iterate_nodeMove)
    moreover have "nodeMove (cs ! ?j) \<noteq> None"
      using assms(2) j by (simp add: MCTSNode)
    ultimately have "nodeMove child \<noteq> None"
      by simp
    moreover have "set (cs[?j := child]) \<subseteq> insert child (set cs)"
      by (rule set_update_subset_insert)
    ultimately show ?thesis
      using assms(2) by (auto simp: n' MCTSNode)
  next
    case False
    then show ?thesis
      using assms
      by (auto simp: MCTSNode iterate.simps Let_def createNode_def split: if_splits)
  qed
qed

lemma simulations_children_moves:
  "simulations R rnd simulate i k node = Some node' \<Longrightarrow>
   \<forall>c \<in> set (children node). nodeMove c \<noteq> None \<Longrightarrow>
   \<forall>c \<in> set (children node'). nodeMove c \<noteq> None"
proof (induction k arbitrary: i node)
  case 0
  then show ?case by simp
next
  case (Suc k)
  from Suc.prems(1) obtain mid res
    where it: "iterate R (rnd i) (simulate i) node = Some (mid, res)"
      and rest: "simulations R rnd simulate (i + 1) k mid = Some node'"
    by (auto split: option.splits)
  have "\<forall>c \<in> set (children mid). nodeMove c \<noteq> None"
    using it Suc.prems(2) by (rule iterate_children_moves)
  with rest show ?case
    by (rule Suc.IH)
qed

lemma bestChildLoop_member:
  "bestChildLoop bias n cs (best, score) \<in> insert best (set cs)"
  by (induction cs arbitrary: best score) (auto simp: Let_def)

lemma mcts_many_moves_not_null:
  assumes "length (legalMoves R fen) \<noteq> 0" and "length (legalMoves R fen) \<noteq> 1"
  shows "\<not> returnsNull (mcts R rnd simulate fen n bias)"
proof (cases "simulations R rnd simulate 0 (nat n) (createNode R fen None)")
  case None
  then show ?thesis
    using assms by (simp add: mcts_def Let_def returnsNull_def)
next
  case (Some root')
  have "\<forall>c \<in> set (children (createNode R fen None)). nodeMove c \<noteq> None"
    by (simp add: createNode_def)
  with Some have inv: "\<forall>c \<in> set (children root'). nodeMove c \<noteq> None"
    by (rule simulations_children_moves)
  show ?thesis
  proof (cases "children root'")
    case Nil
    then show ?thesis
      using assms Some by (simp add: mcts_def Let_def returnsNull_def)
  next
    case (Cons first rest)
    have "bestChildLoop bias n (children root') (first, None) \<in> insert first (set (children root'))"
      by (rule bestChildLoop_member)
    then have "bestChildLoop bias n (children root') (first, None) \<in> set (children root')"
      by (simp add: Cons)
    with inv have "nodeMove (bestChildLoop bias n (children root') (first, None)) \<noteq> None"
      by blast
    then show ?thesis
      using assms Some Cons by (simp add: mcts_def Let_def returnsNull_def)
  qed
qed

text \<open>
  C6. For every position, every simulation budget and every optional bias, \<open>mcts\<close>
  returns \<open>null\<close> exactly when the position has no legal move (and then builds no
  tree); with exactly one legal move it returns that move and no node is ever created:
  no tree, no expansion.
\<close>

theorem mcts_null_iff_no_moves_and_single_move:
  "returnsNull (mcts R rnd simulate fen n bias) = (legalMoves R fen = [])
   \<and> (legalMoves R fen = [] \<longrightarrow> mcts R rnd simulate fen n bias = Returned None None)
   \<and> (legalMoves R fen = [m] \<longrightarrow> mcts R rnd simulate fen n bias = Returned (Some m) None)"
proof -
  have zero: "legalMoves R fen = [] \<longrightarrow> mcts R rnd simulate fen n bias = Returned None None"
    by (simp add: mcts_def)
  have one: "legalMoves R fen = [m] \<longrightarrow> mcts R rnd simulate fen n bias = Returned (Some m) None"
    by (simp add: mcts_def)
  have "returnsNull (mcts R rnd simulate fen n bias) = (legalMoves R fen = [])"
  proof (cases "length (legalMoves R fen) = 0")
    case True
    then show ?thesis
      by (simp add: mcts_def returnsNull_def)
  next
    case False
    show ?thesis
    proof (cases "length (legalMoves R fen) = 1")
      case True
      then have "mcts R rnd simulate fen n bias = Returned (Some (legalMoves R fen ! 0)) None"
        by (cases "legalMoves R fen") (simp_all add: mcts_def Let_def)
      then show ?thesis
        using False by (simp add: returnsNull_def)
    next
      case one': False
      have "\<not> returnsNull (mcts R rnd simulate fen n bias)"
        using False one' by (rule mcts_many_moves_not_null)
      then show ?thesis
        using False by simp
    qed
  qed
  with zero one show ?thesis by simp
qed

theorem mcts_null_iff_no_moves_and_single_move_witness:
  "legalMoves sampleRules ''forced'' = [''Kh1'']
   \<and> mcts sampleRules (\<lambda>i. 1 / 2) (\<lambda>i fen. 1 / 2) ''forced'' 30 None
        = Returned (Some ''Kh1'') None
   \<and> legalMoves sampleRules ''mate'' = []
   \<and> mcts sampleRules (\<lambda>i. 1 / 2) (\<lambda>i fen. 1 / 2) ''mate'' 30 None = Returned None None
   \<and> \<not> returnsNull (mcts sampleRules (\<lambda>i. 1 / 2) (\<lambda>i fen. 1 / 2) ''open'' 30 None)"
proof -
  have f: "legalMoves sampleRules ''forced'' = [''Kh1'']"
    by (simp add: sampleRules_def)
  have m: "legalMoves sampleRules ''mate'' = []"
    by (simp add: sampleRules_def)
  have p: "legalMoves sampleRules ''open'' \<noteq> []"
    by (simp add: sampleRules_def)
  from mcts_null_iff_no_moves_and_single_move
         [of sampleRules "\<lambda>i. 1 / 2" "\<lambda>i fen. 1 / 2" "''forced''" 30 None "''Kh1''"] f
  have 1: "mcts sampleRules (\<lambda>i. 1 / 2) (\<lambda>i fen. 1 / 2) ''forced'' 30 None
      = Returned (Some ''Kh1'') None"
    by blast
  from mcts_null_iff_no_moves_and_single_move
         [of sampleRules "\<lambda>i. 1 / 2" "\<lambda>i fen. 1 / 2" "''mate''" 30 None "''Kh1''"] m
  have 2: "mcts sampleRules (\<lambda>i. 1 / 2) (\<lambda>i fen. 1 / 2) ''mate'' 30 None = Returned None None"
    by blast
  from mcts_null_iff_no_moves_and_single_move
         [of sampleRules "\<lambda>i. 1 / 2" "\<lambda>i fen. 1 / 2" "''open''" 30 None "''Kh1''"] p
  have 3: "\<not> returnsNull (mcts sampleRules (\<lambda>i. 1 / 2) (\<lambda>i fen. 1 / 2) ''open'' 30 None)"
    by blast
  from f 1 m 2 3 show ?thesis
    by blast
qed

section \<open>Properties of the book gate\<close>

lemma sampleBook_key: "simplifyFen startFen = ''rnbqkbnr/pppppppp/8/8/8/8/PPPPPPPP/RNBQKBNR w KQkq -''"
  by (simp add: simplifyFen_def startFen_def)

lemma sample_isInBook: "isInBook sampleBook startFen"
  by (simp add: isInBook_def sampleBook_key) (simp add: sampleBook_def)

lemma sample_getBookMove:
  "getBookMove sampleBook (drawsFrom x) 1 startFen = (Some ''d4'', 2)"
  by (simp add: getBookMove_def sampleBook_key) (simp add: sampleBook_def drawsFrom_def)

text \<open>
  C7, as the code has it. In \<open>decideMove\<close> the gate passes when the draw exceeds half the
  exploration rate, so for a fixed draw a gate that passes at some exploration rate
  passes at every smaller rate. For a position of the book whose sampled book move is
  legal, \<open>decideMove\<close> returns the book move, the agent and its game history unchanged,
  exactly when the gate passes; \<open>decideMoveWithMCTS\<close> has no gate and returns the book
  move whatever the exploration rate.
\<close>

theorem book_gate_passes_at_smaller_rates:
  "(e2 \<le> e1 \<and> bookGate e1 r \<longrightarrow> bookGate e2 r)
   \<and> (moves \<noteq> [] \<and> isInBook book fen \<and> getBookMove book rnd (i + 1) fen = (Some b, j)
        \<and> b \<noteq> [] \<and> b \<in> san ` set moves \<longrightarrow>
        decideMove book rnd i fen moves s =
          (if bookGate (explorationRate s) (rnd i) then (Some b, s, j)
           else decideLearned rnd (i + 1) (hashPosition fen) (hd moves) moves s))
   \<and> (moves \<noteq> [] \<and> isInBook book fen \<and> getBookMove book rnd i fen = (Some b, j)
        \<and> b \<noteq> [] \<and> b \<in> san ` set moves \<longrightarrow>
        decideMoveWithMCTS book R srnd simulate rnd i fen moves s = Some (Some b, s, j))"
proof -
  have mono: "e2 \<le> e1 \<and> bookGate e1 r \<longrightarrow> bookGate e2 r"
    by (auto simp: bookGate_def)
  have dm: "moves \<noteq> [] \<and> isInBook book fen \<and> getBookMove book rnd (i + 1) fen = (Some b, j)
        \<and> b \<noteq> [] \<and> b \<in> san ` set moves \<longrightarrow>
        decideMove book rnd i fen moves s =
          (if bookGate (explorationRate s) (rnd i) then (Some b, s, j)
           else decideLearned rnd (i + 1) (hashPosition fen) (hd moves) moves s)"
    by (cases moves) (auto simp: decideMove_def Let_def)
  have ms: "moves \<noteq> [] \<and> isInBook book fen \<and> getBookMove book rnd i fen = (Some b, j)
        \<and> b \<noteq> [] \<and> b \<in> san ` set moves \<longrightarrow>
        decideMoveWithMCTS book R srnd simulate rnd i fen moves s = Some (Some b, s, j)"
    by (auto simp: decideMoveWithMCTS_def Let_def)
  from mono dm ms show ?thesis
    by blast
qed

theorem book_gate_passes_at_smaller_rates_witness:
  "(1 / 10 :: real) \<le> 3 / 10 \<and> bookGate (3 / 10) (2 / 10) \<and> bookGate (1 / 10) (2 / 10)
   \<and> sampleMoves \<noteq> [] \<and> isInBook sampleBook startFen
   \<and> getBookMove sampleBook (drawsFrom (2 / 10)) 1 startFen = (Some ''d4'', 2)
   \<and> ''d4'' \<in> san ` set sampleMoves
   \<and> bookGate (explorationRate sampleAgent) (drawsFrom (2 / 10) 0)
   \<and> decideMove sampleBook (drawsFrom (2 / 10)) 0 startFen sampleMoves sampleAgent
        = (Some ''d4'', sampleAgent, 2)"
proof -
  note inst = book_gate_passes_at_smaller_rates
    [of "1 / 10" "3 / 10" "2 / 10" sampleMoves sampleBook startFen "drawsFrom (2 / 10)" 0
        "''d4''" 2 sampleAgent sampleRules "\<lambda>i. 1 / 2" "\<lambda>i fen. 1 / 2"]
  have le: "(1 / 10 :: real) \<le> 3 / 10"
    by simp
  have g1: "bookGate (3 / 10) (2 / 10)"
    by (simp add: bookGate_def)
  have mv: "sampleMoves \<noteq> []" and leg: "''d4'' \<in> san ` set sampleMoves"
    by (simp_all add: sampleMoves_def)
  have bk: "getBookMove sampleBook (drawsFrom (2 / 10)) (0 + 1) startFen = (Some ''d4'', 2)"
    using sample_getBookMove [of "2 / 10"] by simp
  have ga: "bookGate (explorationRate sampleAgent) (drawsFrom (2 / 10) 0)"
    by (simp add: bookGate_def sampleAgent_def drawsFrom_def)
  from inst le g1 have g2: "bookGate (1 / 10) (2 / 10)"
    by blast
  from inst mv sample_isInBook bk leg ga
  have dm: "decideMove sampleBook (drawsFrom (2 / 10)) 0 startFen sampleMoves sampleAgent
      = (Some ''d4'', sampleAgent, 2)"
    by simp
  from le g1 g2 mv sample_isInBook bk leg ga dm show ?thesis
    by simp
qed

text \<open>
  The claim as worded fails: with the draw 0.1 the gate passes at the exploration rate
  0.1 and the book move is played, and at the larger rate 0.3 the gate does not pass
  and the same draws give a learned move, pushed on the game history.
\<close>

theorem book_gate_counterexample:
  "(1 / 10 :: real) \<le> 3 / 10 \<and> bookGate (1 / 10) (1 / 10) \<and> \<not> bookGate (3 / 10) (1 / 10)
   \<and> fst (decideMove sampleBook (drawsFrom (1 / 10)) 0 startFen sampleMoves
            (sampleAgent\<lparr>explorationRate := 1 / 10\<rparr>)) = Some ''d4''
   \<and> fst (decideMove sampleBook (drawsFrom (1 / 10)) 0 startFen sampleMoves
            (sampleAgent\<lparr>explorationRate := 3 / 10\<rparr>)) = Some ''a3''"
proof -
  have g1: "bookGate (1 / 10) (1 / 10)" and g2: "\<not> bookGate (3 / 10) (1 / 10)"
    by (simp_all add: bookGate_def)
  have e1: "explorationRate (sampleAgent\<lparr>explorationRate := 1 / 10\<rparr>) = 1 / 10"
    and e3: "explorationRate (sampleAgent\<lparr>explorationRate := 3 / 10\<rparr>) = 3 / 10"
    by simp_all
  have d0: "drawsFrom (1 / 10) 0 = 1 / 10" and d1: "drawsFrom (1 / 10) (Suc 0) = 1 / 2"
    by (simp_all add: drawsFrom_def)
  have leg: "''d4'' \<in> san ` set sampleMoves"
    by (simp add: sampleMoves_def)
  have "hashPosition startFen = ''rnbqkbnr/pppppppp/8/8/8/8/PPPPPPPP/RNBQKBNR w KQkq -''"
    by (simp add: hashPosition_def startFen_def)
  then have q: "map_of (qTable sampleAgent) (hashPosition startFen) = None"
    by (simp add: sampleAgent_def sampleTable_def)
  have a: "fst (decideMove sampleBook (drawsFrom (1 / 10)) 0 startFen sampleMoves
            (sampleAgent\<lparr>explorationRate := 1 / 10\<rparr>)) = Some ''d4''"
    using sample_getBookMove [of "1 / 10"] leg
    by (simp add: decideMove_def sampleMoves_def sample_isInBook e1 d0 g1 del: One_nat_def)
  have b: "fst (decideMove sampleBook (drawsFrom (1 / 10)) 0 startFen sampleMoves
            (sampleAgent\<lparr>explorationRate := 3 / 10\<rparr>)) = Some ''a3''"
    by (simp add: decideMove_def sampleMoves_def sample_isInBook e3 d0 d1 g2
        decideLearned_def Let_def evaluateMove_def getQValue_def q)
  from g1 g2 a b show ?thesis
    by simp
qed

section \<open>Properties of the orchestrator\<close>

lemma stop_fields:
  "fst (stop gm) =
     gm\<lparr>isRunning := False,
        pendingTimeouts := (case timer gm of None \<Rightarrow> pendingTimeouts gm
                            | Some t \<Rightarrow> removeAll t (pendingTimeouts gm)),
        timer := None, chess := newGame, moveTimesMs := [],
        blunderDetector := resetDetector (blunderDetector gm), lastMoveEval := None\<rparr>"
  by (cases "timer gm") (simp_all add: stop_def pause_def Let_def)

text \<open>
  What \<open>stop\<close> does, from every state. It leaves the manager not running with no
  timeout handle, and when the pending timeouts were at most the one the manager held,
  none is pending afterwards; a \<open>gameLoop\<close> entered after \<open>stop\<close> returns at once. The
  board is the initial position with no move played, and the move times and the
  move-quality tracking are cleared. \<open>stop\<close> never reaches into the agents: their value
  tables are as they were, and so are the game histories they have recorded. A
  following \<open>start\<close> enters the game loop on the initial position with no move played.
\<close>

lemma stop_effect:
  "isRunning (fst (stop gm)) = False \<and> timer (fst (stop gm)) = None
   \<and> (set (pendingTimeouts gm) \<subseteq> set_option (timer gm) \<longrightarrow> pendingTimeouts (fst (stop gm)) = [])
   \<and> gameLoop cycle (fst (stop gm)) = (fst (stop gm), [])
   \<and> chess (fst (stop gm)) = newGame
   \<and> chessFen (chess (fst (stop gm))) = startFen
   \<and> chessHistory (chess (fst (stop gm))) = []
   \<and> moveTimesMs (fst (stop gm)) = []
   \<and> evalHistory (blunderDetector (fst (stop gm))) = []
   \<and> moveHistory (blunderDetector (fst (stop gm))) = []
   \<and> lastMoveNumber (blunderDetector (fst (stop gm))) = 0
   \<and> lastMoveEval (fst (stop gm)) = None
   \<and> whiteAI (fst (stop gm)) = whiteAI gm
   \<and> blackAI (fst (stop gm)) = blackAI gm
   \<and> opponentBot (fst (stop gm)) = opponentBot gm
   \<and> qTable (whiteAI (fst (stop gm))) = qTable (whiteAI gm)
   \<and> qTable (blackAI (fst (stop gm))) = qTable (blackAI gm)
   \<and> gameHistory (whiteAI (fst (stop gm))) = gameHistory (whiteAI gm)
   \<and> gameHistory (blackAI (fst (stop gm))) = gameHistory (blackAI gm)
   \<and> start cycle (fst (stop gm)) =
        (fst (cycle ((fst (stop gm))\<lparr>isRunning := True\<rparr>)),
         AiStatus ''idle'' # snd (cycle ((fst (stop gm))\<lparr>isRunning := True\<rparr>)))
   \<and> chess ((fst (stop gm))\<lparr>isRunning := True\<rparr>) = newGame"
proof -
  have pend: "set (pendingTimeouts gm) \<subseteq> set_option (timer gm) \<longrightarrow>
      pendingTimeouts (fst (stop gm)) = []"
  proof (cases "timer gm")
    case None
    then show ?thesis by (simp add: stop_fields)
  next
    case (Some t)
    have "set (pendingTimeouts gm) \<subseteq> {t} \<Longrightarrow> removeAll t (pendingTimeouts gm) = []"
      by (induction "pendingTimeouts gm") (auto simp: removeAll_filter_not_eq filter_empty_conv)
    then show ?thesis
      using Some by (simp add: stop_fields)
  qed
  have "start cycle (fst (stop gm)) =
        (fst (cycle ((fst (stop gm))\<lparr>isRunning := True\<rparr>)),
         AiStatus ''idle'' # snd (cycle ((fst (stop gm))\<lparr>isRunning := True\<rparr>)))"
    by (simp add: start_def gameLoop_def stop_fields Let_def case_prod_unfold)
  with pend show ?thesis
    by (simp add: stop_fields gameLoop_def resetDetector_def newGame_def)
qed

text \<open>
  C4. The claim describes what \<open>stop\<close> is for, and the code misses one part of it:
  \<open>stop\<close> cancels the pending cycle, resets the board, clears the move-quality tracking
  and leaves the value tables alone, but it does not clear the game trace, which the
  agent keeps as the history of the current game and empties only in \<open>learn\<close>. On the
  sample manager, stopped in the middle of a game: before \<open>stop\<close> two moves are played,
  a timeout is pending and the white agent holds one recorded triple, for the move e4
  at position a, whose learned value is 0.5. After \<open>stop\<close> no timeout is pending, the
  board has no move played, the value table is unchanged, and the triple of the
  abandoned game is still on the trace. The \<open>learn\<close> at the end of the next game, here a
  loss, charges that stale move with the result of a game it was not played in: its
  value goes from 0.5 to 0.35.
\<close>

theorem stop_leaves_stale_trace:
  "chessHistory (chess midGameManager) = [''e4'', ''e5'']
   \<and> pendingTimeouts midGameManager = [7]
   \<and> gameHistory (whiteAI midGameManager)
        = [\<lparr>positionHash = ''a'', move = ''e4'', reward = 1 / 10\<rparr>]
   \<and> pendingTimeouts (fst (stop midGameManager)) = []
   \<and> chessHistory (chess (fst (stop midGameManager))) = []
   \<and> moveHistory (blunderDetector (fst (stop midGameManager))) = []
   \<and> qTable (whiteAI (fst (stop midGameManager))) = qTable (whiteAI midGameManager)
   \<and> gameHistory (whiteAI (fst (stop midGameManager)))
        = [\<lparr>positionHash = ''a'', move = ''e4'', reward = 1 / 10\<rparr>]
   \<and> getQValue (qTable (whiteAI (fst (stop midGameManager)))) ''a'' ''e4'' = 1 / 2
   \<and> getQValue (qTable (learn Loss (whiteAI (fst (stop midGameManager))))) ''a'' ''e4''
        = 35 / 100"
proof -
  have w: "whiteAI (fst (stop midGameManager)) = sampleAgent"
    and w0: "whiteAI midGameManager = sampleAgent"
    by (simp_all add: stop_fields midGameManager_def)
  have h: "gameHistory sampleAgent = [\<lparr>positionHash = ''a'', move = ''e4'', reward = 1 / 10\<rparr>]"
    by (simp add: sampleAgent_def)
  have old: "getQValue (qTable sampleAgent) ''a'' ''e4'' = 1 / 2"
    by (simp add: getQValue_def sampleAgent_def sampleTable_def)
  have "qTable (learn Loss sampleAgent) =
      setQValue ''a'' ''e4'' (1 / 2 + LEARNING_RATE * (- 1 - 1 / 2)) (qTable sampleAgent)"
    by (simp add: learn_def Let_def h old)
  then have new: "getQValue (qTable (learn Loss sampleAgent)) ''a'' ''e4'' = 35 / 100"
    by (simp add: getQValue_setQValue LEARNING_RATE_def)
  have rest: "chessHistory (chess midGameManager) = [''e4'', ''e5'']
      \<and> pendingTimeouts midGameManager = [7]
      \<and> pendingTimeouts (fst (stop midGameManager)) = []
      \<and> chessHistory (chess (fst (stop midGameManager))) = []
      \<and> moveHistory (blunderDetector (fst (stop midGameManager))) = []"
    by (simp add: stop_fields midGameManager_def newGame_def resetDetector_def)
  from rest h old new show ?thesis
    by (simp add: w w0)
qed

section \<open>Properties of quick training and benchmarking\<close>

lemma gamesPlayed_learn_updateStats:
  "gamesPlayed (learn r (updateStats j r' (pushAll items s))) = gamesPlayed s + 1"
  by (simp add: learn_def updateStats_def pushAll_def Let_def)

lemma quickTrainGame_effect:
  assumes "quickTrainGame P numGames game (gm, ww, bw, dc, out) = (gm', ww', bw', dc', out')"
  shows "ww' + bw' + dc' = ww + bw + dc + 1
    \<and> gamesPlayed (whiteAI gm') = gamesPlayed (whiteAI gm) + 1
    \<and> gamesPlayed (blackAI gm') = gamesPlayed (blackAI gm) + 1
    \<and> isBenchmarking gm' = isBenchmarking gm
    \<and> isRunning gm' = isRunning gm"
  using assms
  by (auto simp: quickTrainGame_def Let_def case_prod_unfold gamesPlayed_learn_updateStats
      split: if_splits)

lemma quickTrainLoop_effect:
  "quickTrainLoop P numGames game st = st' \<Longrightarrow>
   fst (snd st') + fst (snd (snd st')) + fst (snd (snd (snd st')))
     = fst (snd st) + fst (snd (snd st)) + fst (snd (snd (snd st)))
       + nat \<lceil>numGames - of_int game\<rceil>
   \<and> gamesPlayed (whiteAI (fst st'))
       = gamesPlayed (whiteAI (fst st)) + nat \<lceil>numGames - of_int game\<rceil>
   \<and> gamesPlayed (blackAI (fst st'))
       = gamesPlayed (blackAI (fst st)) + nat \<lceil>numGames - of_int game\<rceil>
   \<and> isBenchmarking (fst st') = isBenchmarking (fst st)
   \<and> isRunning (fst st') = isRunning (fst st)"
proof (induction P numGames game st arbitrary: st' rule: quickTrainLoop.induct)
  case (1 P numGames game st)
  show ?case
  proof (cases "of_int game < numGames")
    case True
    obtain gm ww bw dc out where st: "st = (gm, ww, bw, dc, out)"
      by (cases st) auto
    obtain gm1 ww1 bw1 dc1 out1
      where g: "quickTrainGame P numGames game (gm, ww, bw, dc, out) = (gm1, ww1, bw1, dc1, out1)"
      by (cases "quickTrainGame P numGames game (gm, ww, bw, dc, out)") auto
    note e = quickTrainGame_effect [OF g]
    from "1.prems" True
    have "quickTrainLoop P numGames (game + 1) (gm1, ww1, bw1, dc1, out1) = st'"
      by (subst (asm) quickTrainLoop.simps) (simp add: st g)
    then have ih: "fst (snd st') + fst (snd (snd st')) + fst (snd (snd (snd st')))
        = ww1 + bw1 + dc1 + nat \<lceil>numGames - of_int (game + 1)\<rceil>
      \<and> gamesPlayed (whiteAI (fst st'))
          = gamesPlayed (whiteAI gm1) + nat \<lceil>numGames - of_int (game + 1)\<rceil>
      \<and> gamesPlayed (blackAI (fst st'))
          = gamesPlayed (blackAI gm1) + nat \<lceil>numGames - of_int (game + 1)\<rceil>
      \<and> isBenchmarking (fst st') = isBenchmarking gm1
      \<and> isRunning (fst st') = isRunning gm1"
      using "1.IH" [OF True, of st'] by (simp only: st g fst_conv snd_conv)
    note n = remaining_games_step [OF True]
    from ih e show ?thesis
      by (simp only: st n fst_conv snd_conv) simp
  next
    case False
    with "1.prems" have s: "st' = st"
      by (subst (asm) quickTrainLoop.simps) simp
    from False have "\<lceil>numGames - of_int game\<rceil> \<le> 0"
      by (simp add: ceiling_le_iff)
    then have "nat \<lceil>numGames - of_int game\<rceil> = 0"
      by simp
    with s show ?thesis
      by simp
  qed
qed

lemma quickTrain_effect:
  assumes "quickTrain P numGames gm = (gm', results, out)"
  shows "resGamesPlayed results = numGames
    \<and> resWhiteWins results + resBlackWins results + resDraws results = nat \<lceil>numGames\<rceil>
    \<and> gamesPlayed (whiteAI gm') = gamesPlayed (whiteAI gm) + nat \<lceil>numGames\<rceil>
    \<and> gamesPlayed (blackAI gm') = gamesPlayed (blackAI gm) + nat \<lceil>numGames\<rceil>
    \<and> isBenchmarking gm' = isBenchmarking gm
    \<and> chess gm' = newGame"
proof -
  define st0 where "st0 = (if isRunning gm then pause gm else (gm, []))"
  define st1 where "st1 = quickTrainLoop P numGames 0 (fst st0, 0, 0, 0, snd st0)"
  have p: "whiteAI (fst st0) = whiteAI gm \<and> blackAI (fst st0) = blackAI gm
      \<and> isBenchmarking (fst st0) = isBenchmarking gm"
    by (cases "timer gm") (simp_all add: st0_def pause_def Let_def)
  have l: "fst (snd st1) + fst (snd (snd st1)) + fst (snd (snd (snd st1))) = nat \<lceil>numGames\<rceil>
      \<and> gamesPlayed (whiteAI (fst st1)) = gamesPlayed (whiteAI (fst st0)) + nat \<lceil>numGames\<rceil>
      \<and> gamesPlayed (blackAI (fst st1)) = gamesPlayed (blackAI (fst st0)) + nat \<lceil>numGames\<rceil>
      \<and> isBenchmarking (fst st1) = isBenchmarking (fst st0)"
    using quickTrainLoop_effect [of P numGames 0 "(fst st0, 0, 0, 0, snd st0)" st1]
    by (simp add: st1_def)
  have q: "quickTrain P numGames gm =
      ((fst st1)\<lparr>chess := newGame\<rparr>,
       \<lparr>resGamesPlayed = numGames, resWhiteWins = fst (snd st1),
        resBlackWins = fst (snd (snd st1)), resDraws = fst (snd (snd (snd st1)))\<rparr>,
       snd (snd (snd (snd st1))))"
    by (simp add: quickTrain_def Let_def case_prod_unfold st1_def st0_def)
  from assms q have
    "gm' = (fst st1)\<lparr>chess := newGame\<rparr>"
    "results = \<lparr>resGamesPlayed = numGames, resWhiteWins = fst (snd st1),
        resBlackWins = fst (snd (snd st1)), resDraws = fst (snd (snd (snd st1)))\<rparr>"
    by simp_all
  with p l show ?thesis
    by simp
qed

lemma quickTrainHandler_effect:
  "hd (snd (quickTrainHandler P numGames gm)) = QuickTrainStarted (clampGames numGames)
   \<and> last (butlast (snd (quickTrainHandler P numGames gm)))
        = QuickTrainComplete (fst (snd (quickTrain P (clampGames numGames) gm)))
   \<and> resGamesPlayed (fst (snd (quickTrain P (clampGames numGames) gm))) = clampGames numGames
   \<and> resWhiteWins (fst (snd (quickTrain P (clampGames numGames) gm)))
        + resBlackWins (fst (snd (quickTrain P (clampGames numGames) gm)))
        + resDraws (fst (snd (quickTrain P (clampGames numGames) gm)))
        = nat \<lceil>clampGames numGames\<rceil>
   \<and> gamesPlayed (whiteAI (fst (quickTrainHandler P numGames gm)))
        = gamesPlayed (whiteAI gm) + nat \<lceil>clampGames numGames\<rceil>
   \<and> gamesPlayed (blackAI (fst (quickTrainHandler P numGames gm)))
        = gamesPlayed (blackAI gm) + nat \<lceil>clampGames numGames\<rceil>
   \<and> isBenchmarking (fst (quickTrainHandler P numGames gm)) = isBenchmarking gm"
proof -
  obtain gm' results out
    where q: "quickTrain P (clampGames numGames) gm = (gm', results, out)"
    by (cases "quickTrain P (clampGames numGames) gm") auto
  note e = quickTrain_effect [OF q]
  have h: "quickTrainHandler P numGames gm =
      (gm', [QuickTrainStarted (clampGames numGames)] @ out
              @ [QuickTrainComplete results, GameStateBroadcast])"
    by (simp add: quickTrainHandler_def Let_def q)
  have b: "last (butlast (snd (quickTrainHandler P numGames gm))) = QuickTrainComplete results"
    by (simp add: h butlast_append)
  from e b show ?thesis
    by (simp add: h q)
qed

lemma clampGames_whole:
  "0 < n \<Longrightarrow> clampGames (Some (of_int n)) = of_int (min (max 1 n) 50)"
  by (simp add: clampGames_def min_def max_def)

text \<open>
  C10, as the code has it. The handler clamps the count to
  \<open>games = min (max 1 n) 50\<close>, with 5 in place of a missing or zero \<open>n\<close>, announces and
  reports that number as it is, and plays \<open>games\<close> rounded up to a whole number of games:
  the outcomes sum to it and both agents have that many more games played. So for a
  positive whole number \<open>n\<close> exactly \<open>min (max 1 n) 50\<close> games are played, at most 50, and
  5 games when \<open>n\<close> is missing or zero.
\<close>

theorem quick_train_games_clamped:
  "(0 < n \<longrightarrow>
      clampGames (Some (of_int n)) = of_int (min (max 1 n) 50)
      \<and> gamesPlayed (whiteAI (fst (quickTrainHandler P (Some (of_int n)) gm)))
           = gamesPlayed (whiteAI gm) + nat (min (max 1 n) 50)
      \<and> gamesPlayed (blackAI (fst (quickTrainHandler P (Some (of_int n)) gm)))
           = gamesPlayed (blackAI gm) + nat (min (max 1 n) 50))
   \<and> clampGames None = 5 \<and> clampGames (Some 0) = 5
   \<and> gamesPlayed (whiteAI (fst (quickTrainHandler P None gm))) = gamesPlayed (whiteAI gm) + 5
   \<and> gamesPlayed (whiteAI (fst (quickTrainHandler P (Some 0) gm))) = gamesPlayed (whiteAI gm) + 5
   \<and> hd (snd (quickTrainHandler P numGames gm)) = QuickTrainStarted (clampGames numGames)
   \<and> last (butlast (snd (quickTrainHandler P numGames gm)))
        = QuickTrainComplete (fst (snd (quickTrain P (clampGames numGames) gm)))
   \<and> resGamesPlayed (fst (snd (quickTrain P (clampGames numGames) gm))) = clampGames numGames
   \<and> resWhiteWins (fst (snd (quickTrain P (clampGames numGames) gm)))
        + resBlackWins (fst (snd (quickTrain P (clampGames numGames) gm)))
        + resDraws (fst (snd (quickTrain P (clampGames numGames) gm)))
        = nat \<lceil>clampGames numGames\<rceil>
   \<and> gamesPlayed (whiteAI (fst (quickTrainHandler P numGames gm)))
        = gamesPlayed (whiteAI gm) + nat \<lceil>clampGames numGames\<rceil>
   \<and> gamesPlayed (blackAI (fst (quickTrainHandler P numGames gm)))
        = gamesPlayed (blackAI gm) + nat \<lceil>clampGames numGames\<rceil>"
proof -
  have whole: "0 < n \<longrightarrow>
      clampGames (Some (of_int n)) = of_int (min (max 1 n) 50)
      \<and> gamesPlayed (whiteAI (fst (quickTrainHandler P (Some (of_int n)) gm)))
           = gamesPlayed (whiteAI gm) + nat (min (max 1 n) 50)
      \<and> gamesPlayed (blackAI (fst (quickTrainHandler P (Some (of_int n)) gm)))
           = gamesPlayed (blackAI gm) + nat (min (max 1 n) 50)"
  proof
    assume "0 < n"
    then have c: "clampGames (Some (of_int n)) = of_int (min (max 1 n) 50)"
      by (rule clampGames_whole)
    then have "nat \<lceil>clampGames (Some (real_of_int n))\<rceil> = nat (min (max 1 n) 50)"
      by (simp only: ceiling_of_int)
    with c quickTrainHandler_effect [of P "Some (of_int n)" gm]
    show "clampGames (Some (of_int n)) = of_int (min (max 1 n) 50)
      \<and> gamesPlayed (whiteAI (fst (quickTrainHandler P (Some (of_int n)) gm)))
           = gamesPlayed (whiteAI gm) + nat (min (max 1 n) 50)
      \<and> gamesPlayed (blackAI (fst (quickTrainHandler P (Some (of_int n)) gm)))
           = gamesPlayed (blackAI gm) + nat (min (max 1 n) 50)"
      by simp
  qed
  have five: "clampGames None = 5 \<and> clampGames (Some 0) = 5"
    by (simp add: clampGames_def)
  then have n5: "nat \<lceil>clampGames None\<rceil> = 5" and z5: "nat \<lceil>clampGames (Some 0)\<rceil> = 5"
    by simp_all
  have a: "gamesPlayed (whiteAI (fst (quickTrainHandler P None gm))) = gamesPlayed (whiteAI gm) + 5"
    using quickTrainHandler_effect [of P None gm] by (simp only: n5)
  have b: "gamesPlayed (whiteAI (fst (quickTrainHandler P (Some 0) gm)))
      = gamesPlayed (whiteAI gm) + 5"
    using quickTrainHandler_effect [of P "Some 0" gm] by (simp only: z5)
  from whole five a b quickTrainHandler_effect [of P numGames gm] show ?thesis
    by blast
qed

theorem quick_train_games_clamped_witness:
  "(0::int) < 80 \<and> clampGames (Some 80) = 50
   \<and> gamesPlayed (whiteAI midGameManager) = 3
   \<and> gamesPlayed (whiteAI (fst (quickTrainHandler samplePlay (Some 80) midGameManager))) = 53"
proof -
  have p: "(0::int) < 80"
    by simp
  from quick_train_games_clamped [of 80 samplePlay midGameManager None] p
  have a: "clampGames (Some (of_int 80)) = of_int (min (max 1 80) 50)"
    and g: "gamesPlayed (whiteAI (fst (quickTrainHandler samplePlay (Some (of_int 80))
              midGameManager)))
        = gamesPlayed (whiteAI midGameManager) + nat (min (max 1 80) 50)"
    by blast+
  have w: "gamesPlayed (whiteAI midGameManager) = 3"
    by (simp add: midGameManager_def sampleAgent_def)
  from p a g w show ?thesis
    by simp
qed

text \<open>
  The claim as worded fails for a positive count that is not whole: for 2.5 the clamp is
  \<open>min (max 1 2.5) 50 = 2.5\<close>, which the handler announces and reports as the games
  played, and three games are played.
\<close>

theorem quick_train_fractional_count_counterexample:
  "(0::real) < 5 / 2 \<and> min (max 1 (5 / 2)) 50 = (5 / 2 :: real)
   \<and> hd (snd (quickTrainHandler samplePlay (Some (5 / 2)) newGameManager))
        = QuickTrainStarted (5 / 2)
   \<and> resGamesPlayed (fst (snd (quickTrain samplePlay (5 / 2) newGameManager))) = 5 / 2
   \<and> gamesPlayed (whiteAI newGameManager) = 0
   \<and> gamesPlayed (whiteAI (fst (quickTrainHandler samplePlay (Some (5 / 2)) newGameManager))) = 3
   \<and> gamesPlayed (blackAI (fst (quickTrainHandler samplePlay (Some (5 / 2)) newGameManager))) = 3
   \<and> real (gamesPlayed (whiteAI (fst (quickTrainHandler samplePlay (Some (5 / 2))
        newGameManager)))) \<noteq> min (max 1 (5 / 2)) 50"
proof -
  have c: "clampGames (Some (5 / 2)) = 5 / 2"
    by (simp add: clampGames_def)
  have "\<lceil>5 / 2 :: real\<rceil> = 3"
    by (simp add: ceiling_unique)
  then have k: "nat \<lceil>clampGames (Some (5 / 2))\<rceil> = 3"
    by (simp add: c)
  have z: "gamesPlayed (whiteAI newGameManager) = 0 \<and> gamesPlayed (blackAI newGameManager) = 0"
    by (simp add: newGameManager_def newNeuralNetwork_def)
  from quickTrainHandler_effect [of samplePlay "Some (5 / 2)" newGameManager] z
  show ?thesis
    by (simp only: k c) simp
qed

text \<open>
  C8, as the code has it. A run_benchmark command that arrives while a benchmark is in
  progress is rejected with the error \<open>Benchmark already running\<close> and changes nothing;
  otherwise it sets the flag and starts. The quick_train handler has no guard: whatever
  the benchmark flag, it announces its games, plays them, reports the results, and
  leaves the flag as it found it.
\<close>

theorem benchmark_guard_and_unguarded_quick_train:
  "(isBenchmarking gm \<longrightarrow>
      runBenchmarkStart env gm = (gm, [BenchmarkError ''Benchmark already running''], None))
   \<and> (\<not> isBenchmarking gm \<longrightarrow>
        isBenchmarking (fst (runBenchmarkStart env gm))
        \<and> fst (snd (runBenchmarkStart env gm)) = [BenchmarkStarted]
        \<and> snd (snd (runBenchmarkStart env gm)) \<noteq> None)
   \<and> hd (snd (quickTrainHandler P numGames gm)) = QuickTrainStarted (clampGames numGames)
   \<and> last (butlast (snd (quickTrainHandler P numGames gm)))
        = QuickTrainComplete (fst (snd (quickTrain P (clampGames numGames) gm)))
   \<and> resWhiteWins (fst (snd (quickTrain P (clampGames numGames) gm)))
        + resBlackWins (fst (snd (quickTrain P (clampGames numGames) gm)))
        + resDraws (fst (snd (quickTrain P (clampGames numGames) gm)))
        = nat \<lceil>clampGames numGames\<rceil>
   \<and> isBenchmarking (fst (quickTrainHandler P numGames gm)) = isBenchmarking gm"
proof -
  have r: "(isBenchmarking gm \<longrightarrow>
      runBenchmarkStart env gm = (gm, [BenchmarkError ''Benchmark already running''], None))
    \<and> (\<not> isBenchmarking gm \<longrightarrow>
        isBenchmarking (fst (runBenchmarkStart env gm))
        \<and> fst (snd (runBenchmarkStart env gm)) = [BenchmarkStarted]
        \<and> snd (snd (runBenchmarkStart env gm)) \<noteq> None)"
    by (simp add: runBenchmarkStart_def Let_def)
  from r quickTrainHandler_effect [of P numGames gm] show ?thesis
    by blast
qed

theorem benchmark_guard_and_unguarded_quick_train_witness:
  "isBenchmarking (fst (runBenchmarkStart sampleEnv newGameManager))
   \<and> runBenchmarkStart sampleEnv (fst (runBenchmarkStart sampleEnv newGameManager))
        = (fst (runBenchmarkStart sampleEnv newGameManager),
           [BenchmarkError ''Benchmark already running''], None)
   \<and> \<not> isBenchmarking newGameManager
   \<and> fst (snd (runBenchmarkStart sampleEnv newGameManager)) = [BenchmarkStarted]"
proof -
  have n: "\<not> isBenchmarking newGameManager"
    by (simp add: newGameManager_def)
  from benchmark_guard_and_unguarded_quick_train [of newGameManager sampleEnv samplePlay None] n
  have s: "isBenchmarking (fst (runBenchmarkStart sampleEnv newGameManager))"
    and o: "fst (snd (runBenchmarkStart sampleEnv newGameManager)) = [BenchmarkStarted]"
    by blast+
  from benchmark_guard_and_unguarded_quick_train
         [of "fst (runBenchmarkStart sampleEnv newGameManager)" sampleEnv samplePlay None] s
  have "runBenchmarkStart sampleEnv (fst (runBenchmarkStart sampleEnv newGameManager))
        = (fst (runBenchmarkStart sampleEnv newGameManager),
           [BenchmarkError ''Benchmark already running''], None)"
    by blast
  with s n o show ?thesis
    by blast
qed

text \<open>
  The claim as worded fails: after a run_benchmark command on a fresh manager the
  benchmark is in progress, suspended at its first \<open>await\<close>; a quick_train command for
  three games that arrives then is not rejected, plays its three games and reports
  them, all with the benchmark still in progress.
\<close>

theorem quick_train_during_benchmark_counterexample:
  "isBenchmarking (fst (runBenchmarkStart sampleEnv newGameManager))
   \<and> snd (snd (runBenchmarkStart sampleEnv newGameManager)) = Some AwaitInit
   \<and> hd (snd (quickTrainHandler samplePlay (Some 3)
        (fst (runBenchmarkStart sampleEnv newGameManager))))
        = QuickTrainStarted 3
   \<and> gamesPlayed (blackAI (fst (quickTrainHandler samplePlay (Some 3)
        (fst (runBenchmarkStart sampleEnv newGameManager))))) = 3
   \<and> isBenchmarking (fst (quickTrainHandler samplePlay (Some 3)
        (fst (runBenchmarkStart sampleEnv newGameManager))))"
proof -
  let ?gm = "fst (runBenchmarkStart sampleEnv newGameManager)"
  have s: "isBenchmarking ?gm"
    and a: "snd (snd (runBenchmarkStart sampleEnv newGameManager)) = Some AwaitInit"
    by (simp_all add: runBenchmarkStart_def newGameManager_def Let_def)
  have b0: "gamesPlayed (blackAI ?gm) = 0"
    by (simp add: runBenchmarkStart_def newGameManager_def Let_def newNeuralNetwork_def)
  have c: "clampGames (Some 3) = 3"
    by (simp add: clampGames_def)
  then have k: "nat \<lceil>clampGames (Some 3)\<rceil> = 3"
    by simp
  from quickTrainHandler_effect [of samplePlay "Some 3" ?gm] s b0 a
  show ?thesis
    by (simp only: k c) simp
qed

end
